theory Spec2Isabelle
  imports Main
begin

section \<open>NoteKeeper: the persistent store and its lookup helpers\<close>

text \<open>
  The database layer of the application keeps one object, \<^verbatim>\<open>noteKeeperDB\<close>, in memory and
  one JSON text in the \<^verbatim>\<open>localStorage\<close> slot of the same name. Every operation of
  \<^verbatim>\<open>db\<close> first reloads the object from the slot (\<^verbatim>\<open>readDB\<close>), works on it, and the
  mutating ones write it back (\<^verbatim>\<open>writeDB\<close>).

  The embedding has three layers: JSON text and JSON values (what \<^verbatim>\<open>JSON.stringify\<close> and
  \<^verbatim>\<open>JSON.parse\<close> do on plain data), the typed store (notebooks and notes as records), and
  the operations of \<^verbatim>\<open>db\<close> as functions on a world that holds the slot and the object.
  Clock readings (\<^verbatim>\<open>new Date().getTime()\<close>) are arguments of the operations that read the
  clock.
\<close>

subsection \<open>JSON values and their text\<close>

text \<open>
  Numbers are integers (the only numbers the program stores are clock readings), strings are
  lists of 8-bit characters. \<^verbatim>\<open>JSON.stringify\<close> escapes the quote, the backslash and the
  control characters below 0x20; \<^verbatim>\<open>JSON.parse\<close> skips white space between tokens, reads
  the escapes back and, for a key that occurs twice in an object, keeps the last value (see
  \<open>get_member\<close>). A number with a fraction or an exponent, and a \<^verbatim>\<open>\u\<close> escape above 0xFF,
  have no value in this model and are rejected. The parser carries fuel for its nesting;
  \<open>JSON_parse\<close> gives it more than the length of the text.
\<close>

datatype json =
    JNull
  | JBool bool
  | JNum int
  | JStr string
  | JArr "json list"
  | JObj "(string \<times> json) list"

definition is_digit :: "char \<Rightarrow> bool" where
  "is_digit c = (48 \<le> (of_char c :: nat) \<and> (of_char c :: nat) \<le> 57)"

definition is_ws :: "char \<Rightarrow> bool" where
  "is_ws c = (c = CHR 0x20 \<or> c = CHR 0x09 \<or> c = CHR 0x0A \<or> c = CHR 0x0D)"

definition digit_char :: "nat \<Rightarrow> char" where
  "digit_char d = ''0123456789'' ! d"

definition digit_value :: "char \<Rightarrow> nat" where
  "digit_value c = of_char c - 48"

function digits :: "nat \<Rightarrow> string" where
  "digits n = (if n < 10 then [digit_char n] else digits (n div 10) @ [digit_char (n mod 10)])"
  by pat_completeness auto
termination
  by (relation "measure (\<lambda>n. n)") auto

declare digits.simps [simp del]

definition toString :: "int \<Rightarrow> string" where
  "toString i = (if i < 0 then CHR ''-'' # digits (nat (- i)) else digits (nat i))"

definition digits_value :: "string \<Rightarrow> nat" where
  "digits_value ds = foldl (\<lambda>a c. 10 * a + digit_value c) 0 ds"

definition hex_char :: "nat \<Rightarrow> char" where
  "hex_char d = ''0123456789abcdef'' ! d"

definition hex_value :: "char \<Rightarrow> nat option" where
  "hex_value c =
     (let k = (of_char c :: nat) in
      if 48 \<le> k \<and> k \<le> 57 then Some (k - 48)
      else if 97 \<le> k \<and> k \<le> 102 then Some (k - 87)
      else if 65 \<le> k \<and> k \<le> 70 then Some (k - 55)
      else None)"

definition escape_char :: "char \<Rightarrow> string" where
  "escape_char c =
     (if c = CHR 0x22 then [CHR 0x5C, CHR 0x22]
      else if c = CHR 0x5C then [CHR 0x5C, CHR 0x5C]
      else if c = CHR 0x08 then [CHR 0x5C, CHR ''b'']
      else if c = CHR 0x0C then [CHR 0x5C, CHR ''f'']
      else if c = CHR 0x0A then [CHR 0x5C, CHR ''n'']
      else if c = CHR 0x0D then [CHR 0x5C, CHR ''r'']
      else if c = CHR 0x09 then [CHR 0x5C, CHR ''t'']
      else if (of_char c :: nat) < 32
        then [CHR 0x5C, CHR ''u'', CHR ''0'', CHR ''0'',
              hex_char ((of_char c :: nat) div 16), hex_char ((of_char c :: nat) mod 16)]
      else [c])"

definition quote :: "string \<Rightarrow> string" where
  "quote s = CHR 0x22 # concat (map escape_char s) @ [CHR 0x22]"

fun JSON_stringify :: "json \<Rightarrow> string"
  and stringify_elements :: "json list \<Rightarrow> string"
  and stringify_members :: "(string \<times> json) list \<Rightarrow> string" where
  "JSON_stringify JNull = ''null''"
| "JSON_stringify (JBool b) = (if b then ''true'' else ''false'')"
| "JSON_stringify (JNum i) = toString i"
| "JSON_stringify (JStr s) = quote s"
| "JSON_stringify (JArr xs) = ''['' @ stringify_elements xs @ '']''"
| "JSON_stringify (JObj ms) = ''{'' @ stringify_members ms @ ''}''"
| "stringify_elements [] = []"
| "stringify_elements [x] = JSON_stringify x"
| "stringify_elements (x # y # ys) = JSON_stringify x @ '','' @ stringify_elements (y # ys)"
| "stringify_members [] = []"
| "stringify_members [(k, v)] = quote k @ '':'' @ JSON_stringify v"
| "stringify_members ((k, v) # m # ms) =
     quote k @ '':'' @ JSON_stringify v @ '','' @ stringify_members (m # ms)"

definition unescape :: "char \<Rightarrow> char option" where
  "unescape e =
     (if e = CHR 0x22 then Some (CHR 0x22)
      else if e = CHR 0x5C then Some (CHR 0x5C)
      else if e = CHR ''/'' then Some (CHR ''/'')
      else if e = CHR ''b'' then Some (CHR 0x08)
      else if e = CHR ''f'' then Some (CHR 0x0C)
      else if e = CHR ''n'' then Some (CHR 0x0A)
      else if e = CHR ''r'' then Some (CHR 0x0D)
      else if e = CHR ''t'' then Some (CHR 0x09)
      else None)"

definition hex4 :: "char \<Rightarrow> char \<Rightarrow> char \<Rightarrow> char \<Rightarrow> char option" where
  "hex4 a b c d =
     (case (hex_value a, hex_value b, hex_value c, hex_value d) of
        (Some x, Some y, Some z, Some w) \<Rightarrow>
          (if x = 0 \<and> y = 0 then Some (char_of (16 * z + w)) else None)
      | _ \<Rightarrow> None)"

fun parse_chars :: "string \<Rightarrow> (string \<times> string) option" where
  "parse_chars [] = None"
| "parse_chars (c # s) =
     (if c = CHR 0x22 then Some ([], s)
      else if c = CHR 0x5C then
        (case s of
           [] \<Rightarrow> None
         | e # s1 \<Rightarrow>
             if e = CHR ''u'' then
               (case s1 of
                  a # b # c # d # s2 \<Rightarrow>
                    (case hex4 a b c d of
                       None \<Rightarrow> None
                     | Some ch \<Rightarrow> map_option (apfst ((#) ch)) (parse_chars s2))
                | _ \<Rightarrow> None)
             else
               (case unescape e of
                  None \<Rightarrow> None
                | Some ch \<Rightarrow> map_option (apfst ((#) ch)) (parse_chars s1)))
      else if (of_char c :: nat) < 32 then None
      else map_option (apfst ((#) c)) (parse_chars s))"

definition skip_ws :: "string \<Rightarrow> string" where
  "skip_ws s = dropWhile is_ws s"

definition parse_number :: "string \<Rightarrow> (json \<times> string) option" where
  "parse_number s =
     (let neg = (s \<noteq> [] \<and> hd s = CHR ''-'');
          s1 = (if neg then tl s else s);
          ds = takeWhile is_digit s1;
          r = dropWhile is_digit s1
      in if ds = [] \<or> (hd ds = CHR ''0'' \<and> 1 < length ds)
            \<or> (r \<noteq> [] \<and> hd r \<in> set ''.eE'') then None
         else Some (JNum (if neg then - int (digits_value ds) else int (digits_value ds)), r))"

definition parse_literal :: "string \<Rightarrow> (json \<times> string) option" where
  "parse_literal s =
     (if take 4 s = ''null'' then Some (JNull, drop 4 s)
      else if take 4 s = ''true'' then Some (JBool True, drop 4 s)
      else if take 5 s = ''false'' then Some (JBool False, drop 5 s)
      else None)"

fun parse_value :: "nat \<Rightarrow> string \<Rightarrow> (json \<times> string) option"
  and parse_elements :: "nat \<Rightarrow> string \<Rightarrow> (json list \<times> string) option"
  and parse_members :: "nat \<Rightarrow> string \<Rightarrow> ((string \<times> json) list \<times> string) option" where
  "parse_value 0 s = None"
| "parse_value (Suc n) s =
     (case skip_ws s of
        [] \<Rightarrow> None
      | c # r \<Rightarrow>
          if c = CHR ''{'' then
            (case skip_ws r of
               [] \<Rightarrow> None
             | d # r1 \<Rightarrow>
                 if d = CHR ''}'' then Some (JObj [], r1)
                 else map_option (apfst JObj) (parse_members n (d # r1)))
          else if c = CHR ''['' then
            (case skip_ws r of
               [] \<Rightarrow> None
             | d # r1 \<Rightarrow>
                 if d = CHR '']'' then Some (JArr [], r1)
                 else map_option (apfst JArr) (parse_elements n (d # r1)))
          else if c = CHR 0x22 then map_option (apfst JStr) (parse_chars r)
          else if c = CHR ''-'' \<or> is_digit c then parse_number (c # r)
          else parse_literal (c # r))"
| "parse_elements 0 s = None"
| "parse_elements (Suc n) s =
     (case parse_value n s of
        None \<Rightarrow> None
      | Some (v, r) \<Rightarrow>
          (case skip_ws r of
             [] \<Rightarrow> None
           | c # r1 \<Rightarrow>
               if c = CHR '','' then map_option (apfst ((#) v)) (parse_elements n r1)
               else if c = CHR '']'' then Some ([v], r1)
               else None))"
| "parse_members 0 s = None"
| "parse_members (Suc n) s =
     (case skip_ws s of
        [] \<Rightarrow> None
      | q # r \<Rightarrow>
          if q \<noteq> CHR 0x22 then None
          else
            (case parse_chars r of
               None \<Rightarrow> None
             | Some (k, r1) \<Rightarrow>
                 (case skip_ws r1 of
                    [] \<Rightarrow> None
                  | c # r2 \<Rightarrow>
                      if c \<noteq> CHR '':'' then None
                      else
                        (case parse_value n r2 of
                           None \<Rightarrow> None
                         | Some (v, r3) \<Rightarrow>
                             (case skip_ws r3 of
                                [] \<Rightarrow> None
                              | e # r4 \<Rightarrow>
                                  if e = CHR '','' then
                                    map_option (apfst ((#) (k, v))) (parse_members n r4)
                                  else if e = CHR ''}'' then Some ([(k, v)], r4)
                                  else None)))))"

definition JSON_parse :: "string \<Rightarrow> json option" where
  "JSON_parse s =
     (case parse_value (Suc (length s)) s of
        None \<Rightarrow> None
      | Some (j, r) \<Rightarrow> if skip_ws r = [] then Some j else None)"

fun cost :: "json \<Rightarrow> nat"
  and cost_elements :: "json list \<Rightarrow> nat"
  and cost_members :: "(string \<times> json) list \<Rightarrow> nat" where
  "cost JNull = 1"
| "cost (JBool b) = 1"
| "cost (JNum i) = 1"
| "cost (JStr s) = 1"
| "cost (JArr xs) = Suc (cost_elements xs)"
| "cost (JObj ms) = Suc (cost_members ms)"
| "cost_elements [] = 0"
| "cost_elements (x # xs) = Suc (cost x + cost_elements xs)"
| "cost_members [] = 0"
| "cost_members ((k, v) # ms) = Suc (cost v + cost_members ms)"

text \<open>Auxiliary notions for the proofs about the parser.\<close>

definition follow_ok :: "string \<Rightarrow> bool" where
  "follow_ok r = (r = [] \<or> hd r = CHR '','' \<or> hd r = CHR '']'' \<or> hd r = CHR ''}'')"

definition value_start :: "char \<Rightarrow> bool" where
  "value_start c = (\<not> is_ws c \<and> c \<noteq> CHR '']'' \<and> c \<noteq> CHR ''}'')"

subsection \<open>The data model\<close>

text \<open>
  A note as the program builds it: \<^verbatim>\<open>id\<close>, \<^verbatim>\<open>notebookId\<close> and \<^verbatim>\<open>postedOn\<close> are always
  there; \<^verbatim>\<open>title\<close> and \<^verbatim>\<open>text\<close> come from the object the caller passes and are absent
  when that object does not carry them. The record fixes the order of the keys; what
  \<^verbatim>\<open>JSON.parse\<close> returns does not depend on it.
\<close>

record Note =
  note_id :: string
  note_notebookId :: string
  note_title :: "string option"
  note_text :: "string option"
  note_postedOn :: int

record Notebook =
  notebook_id :: string
  notebook_name :: string
  notebook_notes :: "Note list"

record Store =
  notebooks :: "Notebook list"

text \<open>
  The \<^verbatim>\<open>object\<close> argument of \<^verbatim>\<open>db.post.note\<close> and \<^verbatim>\<open>db.update.note\<close>: a JavaScript
  object that may carry any of the keys of a note.
\<close>

record note_object =
  obj_id :: "string option"
  obj_notebookId :: "string option"
  obj_title :: "string option"
  obj_text :: "string option"
  obj_postedOn :: "int option"

datatype error = SyntaxError | TypeError

text \<open>The world: the \<^verbatim>\<open>localStorage\<close> slot "noteKeeperDB" and the module variable.\<close>

record world =
  localStorage :: "string option"
  noteKeeperDB :: Store

subsection \<open>The typed store as a JSON value, and back\<close>

definition optional_member :: "string \<Rightarrow> string option \<Rightarrow> (string \<times> json) list" where
  "optional_member k v = (case v of None \<Rightarrow> [] | Some s \<Rightarrow> [(k, JStr s)])"

definition note_toJSON :: "Note \<Rightarrow> json" where
  "note_toJSON n =
     JObj ([(''id'', JStr (note_id n)), (''notebookId'', JStr (note_notebookId n))]
           @ optional_member ''title'' (note_title n)
           @ optional_member ''text'' (note_text n)
           @ [(''postedOn'', JNum (note_postedOn n))])"

definition notebook_toJSON :: "Notebook \<Rightarrow> json" where
  "notebook_toJSON nb =
     JObj [(''id'', JStr (notebook_id nb)), (''name'', JStr (notebook_name nb)),
           (''notes'', JArr (map note_toJSON (notebook_notes nb)))]"

definition store_toJSON :: "Store \<Rightarrow> json" where
  "store_toJSON db = JObj [(''notebooks'', JArr (map notebook_toJSON (notebooks db)))]"

definition get_member :: "(string \<times> json) list \<Rightarrow> string \<Rightarrow> json option" where
  "get_member ms k = map_of (rev ms) k"

fun string_member :: "json option \<Rightarrow> string option" where
  "string_member (Some (JStr s)) = Some s"
| "string_member _ = None"

fun optional_string_member :: "json option \<Rightarrow> string option option" where
  "optional_string_member None = Some None"
| "optional_string_member (Some (JStr s)) = Some (Some s)"
| "optional_string_member _ = None"

fun int_member :: "json option \<Rightarrow> int option" where
  "int_member (Some (JNum i)) = Some i"
| "int_member _ = None"

fun note_fromJSON :: "json \<Rightarrow> Note option" where
  "note_fromJSON (JObj ms) =
     (case string_member (get_member ms ''id'') of
        None \<Rightarrow> None
      | Some i \<Rightarrow>
     (case string_member (get_member ms ''notebookId'') of
        None \<Rightarrow> None
      | Some nb \<Rightarrow>
     (case optional_string_member (get_member ms ''title'') of
        None \<Rightarrow> None
      | Some t \<Rightarrow>
     (case optional_string_member (get_member ms ''text'') of
        None \<Rightarrow> None
      | Some x \<Rightarrow>
     (case int_member (get_member ms ''postedOn'') of
        None \<Rightarrow> None
      | Some p \<Rightarrow>
          Some \<lparr>note_id = i, note_notebookId = nb, note_title = t, note_text = x,
                note_postedOn = p\<rparr>)))))"
| "note_fromJSON _ = None"

fun array_member :: "json option \<Rightarrow> json list option" where
  "array_member (Some (JArr xs)) = Some xs"
| "array_member _ = None"

fun notebook_fromJSON :: "json \<Rightarrow> Notebook option" where
  "notebook_fromJSON (JObj ms) =
     (case string_member (get_member ms ''id'') of
        None \<Rightarrow> None
      | Some i \<Rightarrow>
     (case string_member (get_member ms ''name'') of
        None \<Rightarrow> None
      | Some nm \<Rightarrow>
     (case array_member (get_member ms ''notes'') of
        None \<Rightarrow> None
      | Some js \<Rightarrow>
     (case those (map note_fromJSON js) of
        None \<Rightarrow> None
      | Some ns \<Rightarrow>
          Some \<lparr>notebook_id = i, notebook_name = nm, notebook_notes = ns\<rparr>))))"
| "notebook_fromJSON _ = None"

fun store_fromJSON :: "json \<Rightarrow> Store option" where
  "store_fromJSON (JObj ms) =
     (case array_member (get_member ms ''notebooks'') of
        None \<Rightarrow> None
      | Some js \<Rightarrow>
     (case those (map notebook_fromJSON js) of
        None \<Rightarrow> None
      | Some nbs \<Rightarrow> Some \<lparr>notebooks = nbs\<rparr>))"
| "store_fromJSON _ = None"

subsection \<open>Reading and writing the slot\<close>

text \<open>
  \<^verbatim>\<open>readDB\<close>: \<^verbatim>\<open>noteKeeperDB = JSON.parse(localStorage.getItem("noteKeeperDB"))\<close>. A text
  that is not JSON raises SyntaxError and leaves the variable as it was. An empty slot, or
  a JSON value that is not a store of notebooks and notes, gives the variable a value on
  which every later access of the operation raises TypeError; the typed model reports that
  error at the read.
\<close>

definition readDB :: "world \<Rightarrow> error + world" where
  "readDB w =
     (case localStorage w of
        None \<Rightarrow> Inl TypeError
      | Some txt \<Rightarrow>
          (case JSON_parse txt of
             None \<Rightarrow> Inl SyntaxError
           | Some j \<Rightarrow>
               (case store_fromJSON j of
                  None \<Rightarrow> Inl TypeError
                | Some db \<Rightarrow> Inr (w\<lparr>noteKeeperDB := db\<rparr>))))"

definition writeDB :: "world \<Rightarrow> world" where
  "writeDB w = w\<lparr>localStorage := Some (JSON_stringify (store_toJSON (noteKeeperDB w)))\<rparr>"

text \<open>
  \<^verbatim>\<open>initDB\<close>, run once when the module loads, on the content of the slot: a slot that holds
  a non-empty text is parsed, otherwise the variable gets an empty notebook list and is
  written to the slot.
\<close>

definition initDB :: "string option \<Rightarrow> error + world" where
  "initDB slot =
     (if slot \<noteq> None \<and> slot \<noteq> Some []
      then readDB \<lparr>localStorage = slot, noteKeeperDB = \<lparr>notebooks = []\<rparr>\<rparr>
      else Inr (writeDB \<lparr>localStorage = slot, noteKeeperDB = \<lparr>notebooks = []\<rparr>\<rparr>))"

text \<open>The store that a reload would put into the variable.\<close>

definition persisted :: "world \<Rightarrow> error + Store" where
  "persisted w = (case readDB w of Inl e \<Rightarrow> Inl e | Inr w1 \<Rightarrow> Inr (noteKeeperDB w1))"

subsection \<open>Identity and lookup helpers (utils.js)\<close>

text \<open>
  \<^verbatim>\<open>generateID\<close>: the clock reading as a decimal string. Ids are strings, on which the
  \<^verbatim>\<open>==\<close> of \<^verbatim>\<open>findNotebook\<close> and the \<^verbatim>\<open>===\<close> of the other helpers agree.
\<close>

definition generateID :: "int \<Rightarrow> string" where
  "generateID now = toString now"

definition findNotebook :: "Store \<Rightarrow> string \<Rightarrow> Notebook option" where
  "findNotebook db notebookId =
     find (\<lambda>notebook. notebook_id notebook = notebookId) (notebooks db)"

text \<open>\<^verbatim>\<open>Array.prototype.findIndex\<close>: the first index whose element passes, or -1.\<close>

fun findIndex_from :: "('a \<Rightarrow> bool) \<Rightarrow> 'a list \<Rightarrow> int \<Rightarrow> int" where
  "findIndex_from P [] k = - 1"
| "findIndex_from P (x # xs) k = (if P x then k else findIndex_from P xs (k + 1))"

definition findIndex :: "('a \<Rightarrow> bool) \<Rightarrow> 'a list \<Rightarrow> int" where
  "findIndex P xs = findIndex_from P xs 0"

definition findNotebookIndex :: "Store \<Rightarrow> string \<Rightarrow> int" where
  "findNotebookIndex db notebookId =
     findIndex (\<lambda>item. notebook_id item = notebookId) (notebooks db)"

fun findNote_loop :: "Notebook list \<Rightarrow> string \<Rightarrow> Note option" where
  "findNote_loop [] noteId = None"
| "findNote_loop (notebook # rest) noteId =
     (case find (\<lambda>note. note_id note = noteId) (notebook_notes notebook) of
        Some note \<Rightarrow> Some note
      | None \<Rightarrow> findNote_loop rest noteId)"

definition findNote :: "Store \<Rightarrow> string \<Rightarrow> Note option" where
  "findNote db noteId = findNote_loop (notebooks db) noteId"

definition findNoteIndex :: "Notebook \<Rightarrow> string \<Rightarrow> int" where
  "findNoteIndex notebook noteId =
     findIndex (\<lambda>note. note_id note = noteId) (notebook_notes notebook)"

subsection \<open>Arrays and objects changed in place\<close>

text \<open>
  \<^verbatim>\<open>Array.prototype.splice(start, deleteCount)\<close>, the array it leaves: a negative start
  counts from the end, and the count is cut to what is there.
\<close>

definition splice :: "'a list \<Rightarrow> int \<Rightarrow> int \<Rightarrow> 'a list" where
  "splice xs start deleteCount =
     (let len = int (length xs);
          relativeStart = (if start < 0 then max (len + start) 0 else min start len);
          actualDeleteCount = min (max deleteCount 0) (len - relativeStart)
      in take (nat relativeStart) xs @ drop (nat (relativeStart + actualDeleteCount)) xs)"

text \<open>
  The object that \<^verbatim>\<open>find\<close> returns is the element of the array, so a write to it changes
  the array at the first element that passes the test.
\<close>

fun update_first :: "('a \<Rightarrow> bool) \<Rightarrow> ('a \<Rightarrow> 'a) \<Rightarrow> 'a list \<Rightarrow> 'a list" where
  "update_first P f [] = []"
| "update_first P f (x # xs) = (if P x then f x # xs else x # update_first P f xs)"

definition update_notebook :: "Store \<Rightarrow> string \<Rightarrow> (Notebook \<Rightarrow> Notebook) \<Rightarrow> Store" where
  "update_notebook db notebookId f =
     db\<lparr>notebooks := update_first (\<lambda>notebook. notebook_id notebook = notebookId) f (notebooks db)\<rparr>"

text \<open>A write to the note that \<^verbatim>\<open>findNote\<close> returns, along the same loop.\<close>

fun update_note_loop :: "Notebook list \<Rightarrow> string \<Rightarrow> (Note \<Rightarrow> Note) \<Rightarrow> Notebook list" where
  "update_note_loop [] noteId f = []"
| "update_note_loop (notebook # rest) noteId f =
     (case find (\<lambda>note. note_id note = noteId) (notebook_notes notebook) of
        Some note \<Rightarrow>
          notebook\<lparr>notebook_notes :=
            update_first (\<lambda>note. note_id note = noteId) f (notebook_notes notebook)\<rparr> # rest
      | None \<Rightarrow> notebook # update_note_loop rest noteId f)"

definition update_note :: "Store \<Rightarrow> string \<Rightarrow> (Note \<Rightarrow> Note) \<Rightarrow> Store" where
  "update_note db noteId f = db\<lparr>notebooks := update_note_loop (notebooks db) noteId f\<rparr>"

text \<open>\<^verbatim>\<open>Object.assign(oldNote, object)\<close>: every key of the object overwrites the note's.\<close>

definition assign :: "Note \<Rightarrow> note_object \<Rightarrow> Note" where
  "assign oldNote object =
     \<lparr>note_id = (case obj_id object of Some v \<Rightarrow> v | None \<Rightarrow> note_id oldNote),
      note_notebookId =
        (case obj_notebookId object of Some v \<Rightarrow> v | None \<Rightarrow> note_notebookId oldNote),
      note_title = (case obj_title object of Some v \<Rightarrow> Some v | None \<Rightarrow> note_title oldNote),
      note_text = (case obj_text object of Some v \<Rightarrow> Some v | None \<Rightarrow> note_text oldNote),
      note_postedOn =
        (case obj_postedOn object of Some v \<Rightarrow> v | None \<Rightarrow> note_postedOn oldNote)\<rparr>"

subsection \<open>The operations of \<^verbatim>\<open>db\<close>\<close>

text \<open>
  Each operation returns its result, or the exception it raises, and the world it leaves.
  An operation that raises after \<^verbatim>\<open>readDB\<close> leaves the reloaded variable and the slot
  untouched.
\<close>

definition db_post_notebook :: "string \<Rightarrow> int \<Rightarrow> world \<Rightarrow> (error + Notebook) \<times> world" where
  "db_post_notebook name now w =
     (case readDB w of
        Inl e \<Rightarrow> (Inl e, w)
      | Inr w1 \<Rightarrow>
          (let notebookData =
                 \<lparr>notebook_id = generateID now, notebook_name = name, notebook_notes = []\<rparr>;
               db = noteKeeperDB w1;
               w2 = w1\<lparr>noteKeeperDB := db\<lparr>notebooks := notebooks db @ [notebookData]\<rparr>\<rparr>
           in (Inr notebookData, writeDB w2)))"

text \<open>
  \<^verbatim>\<open>{ id: generateID(), notebookId, ...object, postedOn: new Date().getTime() }\<close>: the
  spread comes after \<^verbatim>\<open>id\<close> and \<^verbatim>\<open>notebookId\<close> and before \<^verbatim>\<open>postedOn\<close>, so the object's
  \<^verbatim>\<open>id\<close> and \<^verbatim>\<open>notebookId\<close> win and its \<^verbatim>\<open>postedOn\<close> loses. The clock is read twice.
\<close>

definition db_post_note ::
  "string \<Rightarrow> note_object \<Rightarrow> int \<Rightarrow> int \<Rightarrow> world \<Rightarrow> (error + Note) \<times> world" where
  "db_post_note notebookId object now1 now2 w =
     (case readDB w of
        Inl e \<Rightarrow> (Inl e, w)
      | Inr w1 \<Rightarrow>
          (let noteData =
                 \<lparr>note_id = (case obj_id object of Some v \<Rightarrow> v | None \<Rightarrow> generateID now1),
                  note_notebookId =
                    (case obj_notebookId object of Some v \<Rightarrow> v | None \<Rightarrow> notebookId),
                  note_title = obj_title object,
                  note_text = obj_text object,
                  note_postedOn = now2\<rparr>;
               w2 = w1\<lparr>noteKeeperDB :=
                      update_notebook (noteKeeperDB w1) notebookId
                        (\<lambda>notebook. notebook\<lparr>notebook_notes := noteData # notebook_notes notebook\<rparr>)\<rparr>
           in (Inr noteData, writeDB w2)))"

text \<open>The note object that \<^verbatim>\<open>db.post.note\<close> builds, as a function of its own.\<close>

definition noteData :: "string \<Rightarrow> note_object \<Rightarrow> int \<Rightarrow> int \<Rightarrow> Note" where
  "noteData notebookId object now1 now2 =
     \<lparr>note_id = (case obj_id object of Some v \<Rightarrow> v | None \<Rightarrow> generateID now1),
      note_notebookId = (case obj_notebookId object of Some v \<Rightarrow> v | None \<Rightarrow> notebookId),
      note_title = obj_title object,
      note_text = obj_text object,
      note_postedOn = now2\<rparr>"

definition db_get_notebook :: "world \<Rightarrow> (error + Notebook list) \<times> world" where
  "db_get_notebook w =
     (case readDB w of
        Inl e \<Rightarrow> (Inl e, w)
      | Inr w1 \<Rightarrow> (Inr (notebooks (noteKeeperDB w1)), w1))"

definition db_get_note :: "string \<Rightarrow> world \<Rightarrow> (error + Note list) \<times> world" where
  "db_get_note notebookId w =
     (case readDB w of
        Inl e \<Rightarrow> (Inl e, w)
      | Inr w1 \<Rightarrow>
          (case findNotebook (noteKeeperDB w1) notebookId of
             None \<Rightarrow> (Inl TypeError, w1)
           | Some notebook \<Rightarrow> (Inr (notebook_notes notebook), w1)))"

definition db_update_notebook ::
  "string \<Rightarrow> string \<Rightarrow> world \<Rightarrow> (error + Notebook) \<times> world" where
  "db_update_notebook notebookId name w =
     (case readDB w of
        Inl e \<Rightarrow> (Inl e, w)
      | Inr w1 \<Rightarrow>
          (case findNotebook (noteKeeperDB w1) notebookId of
             None \<Rightarrow> (Inl TypeError, w1)
           | Some notebook \<Rightarrow>
               (let w2 = w1\<lparr>noteKeeperDB :=
                           update_notebook (noteKeeperDB w1) notebookId
                             (\<lambda>notebook. notebook\<lparr>notebook_name := name\<rparr>)\<rparr>
                in (Inr (notebook\<lparr>notebook_name := name\<rparr>), writeDB w2))))"

definition db_update_note ::
  "string \<Rightarrow> note_object \<Rightarrow> world \<Rightarrow> (error + Note) \<times> world" where
  "db_update_note noteId object w =
     (case readDB w of
        Inl e \<Rightarrow> (Inl e, w)
      | Inr w1 \<Rightarrow>
          (case findNote (noteKeeperDB w1) noteId of
             None \<Rightarrow> (Inl TypeError, w1)
           | Some oldNote \<Rightarrow>
               (let newNote = assign oldNote object;
                    w2 = w1\<lparr>noteKeeperDB :=
                           update_note (noteKeeperDB w1) noteId (\<lambda>note. assign note object)\<rparr>
                in (Inr newNote, writeDB w2))))"

definition db_delete_notebook :: "string \<Rightarrow> world \<Rightarrow> (error + unit) \<times> world" where
  "db_delete_notebook notebookId w =
     (case readDB w of
        Inl e \<Rightarrow> (Inl e, w)
      | Inr w1 \<Rightarrow>
          (let db = noteKeeperDB w1;
               notebookIndex = findNotebookIndex db notebookId;
               w2 = w1\<lparr>noteKeeperDB := db\<lparr>notebooks := splice (notebooks db) notebookIndex 1\<rparr>\<rparr>
           in (Inr (), writeDB w2)))"

definition db_delete_note ::
  "string \<Rightarrow> string \<Rightarrow> world \<Rightarrow> (error + Note list) \<times> world" where
  "db_delete_note notebookId noteId w =
     (case readDB w of
        Inl e \<Rightarrow> (Inl e, w)
      | Inr w1 \<Rightarrow>
          (case findNotebook (noteKeeperDB w1) notebookId of
             None \<Rightarrow> (Inl TypeError, w1)
           | Some notebook \<Rightarrow>
               (let noteIndex = findNoteIndex notebook noteId;
                    remaining = splice (notebook_notes notebook) noteIndex 1;
                    w2 = w1\<lparr>noteKeeperDB :=
                           update_notebook (noteKeeperDB w1) notebookId
                             (\<lambda>notebook. notebook\<lparr>notebook_notes := remaining\<rparr>)\<rparr>
                in (Inr remaining, writeDB w2))))"

subsection \<open>Sequences of operations\<close>

datatype operation =
    PostNotebook string int
  | PostNote string note_object int int
  | UpdateNotebook string string
  | UpdateNote string note_object
  | DeleteNotebook string
  | DeleteNote string string

fun apply_operation :: "operation \<Rightarrow> world \<Rightarrow> world" where
  "apply_operation (PostNotebook name now) w = snd (db_post_notebook name now w)"
| "apply_operation (PostNote notebookId object now1 now2) w =
     snd (db_post_note notebookId object now1 now2 w)"
| "apply_operation (UpdateNotebook notebookId name) w = snd (db_update_notebook notebookId name w)"
| "apply_operation (UpdateNote noteId object) w = snd (db_update_note noteId object w)"
| "apply_operation (DeleteNotebook notebookId) w = snd (db_delete_notebook notebookId w)"
| "apply_operation (DeleteNote notebookId noteId) w = snd (db_delete_note notebookId noteId w)"

fun run :: "operation list \<Rightarrow> world \<Rightarrow> world" where
  "run [] w = w"
| "run (op # ops) w = run ops (apply_operation op w)"

text \<open>The world after \<^verbatim>\<open>initDB\<close> on an empty slot.\<close>

definition empty_world :: world where
  "empty_world = writeDB \<lparr>localStorage = None, noteKeeperDB = \<lparr>notebooks = []\<rparr>\<rparr>"

text \<open>Every note of a notebook names that notebook in its \<^verbatim>\<open>notebookId\<close>.\<close>

definition notes_belong :: "Store \<Rightarrow> bool" where
  "notes_belong db =
     list_all (\<lambda>notebook.
        list_all (\<lambda>note. note_notebookId note = notebook_id notebook) (notebook_notes notebook))
       (notebooks db)"

text \<open>An operation whose object, if it has one, carries no \<^verbatim>\<open>notebookId\<close> key.\<close>

fun carries_no_notebookId :: "operation \<Rightarrow> bool" where
  "carries_no_notebookId (PostNote notebookId object now1 now2) = (obj_notebookId object = None)"
| "carries_no_notebookId (UpdateNote noteId object) = (obj_notebookId object = None)"
| "carries_no_notebookId _ = True"

text \<open>The invariant on one notebook.\<close>

definition own_notes :: "Notebook \<Rightarrow> bool" where
  "own_notes notebook =
     list_all (\<lambda>note. note_notebookId note = notebook_id notebook) (notebook_notes notebook)"

text \<open>The world between operations: the variable is what the slot holds.\<close>

definition in_step :: "world \<Rightarrow> bool" where
  "in_step w = (persisted w = Inr (noteKeeperDB w))"

subsection \<open>A small store for concrete checks\<close>

definition example_note_old :: Note where
  "example_note_old =
     \<lparr>note_id = ''2000'', note_notebookId = ''1000'', note_title = Some ''a'',
      note_text = Some ''b'', note_postedOn = 2000\<rparr>"

definition example_note_new :: Note where
  "example_note_new =
     \<lparr>note_id = ''3000'', note_notebookId = ''1000'', note_title = Some ''c'',
      note_text = Some ''d'', note_postedOn = 3000\<rparr>"

definition example_notebook :: Notebook where
  "example_notebook =
     \<lparr>notebook_id = ''1000'', notebook_name = ''Home'',
      notebook_notes = [example_note_new, example_note_old]\<rparr>"

definition example_other :: Notebook where
  "example_other = \<lparr>notebook_id = ''4000'', notebook_name = ''Work'', notebook_notes = []\<rparr>"

definition example_store :: Store where
  "example_store = \<lparr>notebooks = [example_notebook, example_other]\<rparr>"

definition example_world :: world where
  "example_world = writeDB \<lparr>localStorage = None, noteKeeperDB = example_store\<rparr>"

definition example_object :: note_object where
  "example_object =
     \<lparr>obj_id = None, obj_notebookId = None, obj_title = Some ''e'', obj_text = Some ''f'',
      obj_postedOn = None\<rparr>"

definition notebookId_only :: "string \<Rightarrow> note_object" where
  "notebookId_only v =
     \<lparr>obj_id = None, obj_notebookId = Some v, obj_title = None, obj_text = None,
      obj_postedOn = None\<rparr>"

definition text_only :: "string \<Rightarrow> note_object" where
  "text_only x =
     \<lparr>obj_id = None, obj_notebookId = None, obj_title = None, obj_text = Some x,
      obj_postedOn = None\<rparr>"


section \<open>Reading back what was written\<close>

subsection \<open>Strings and numbers\<close>

lemma below_ten: "(d::nat) < 10 \<Longrightarrow> d \<in> {0, 1, 2, 3, 4, 5, 6, 7, 8, 9}"
  by simp arith

lemma below_sixteen:
  "(d::nat) < 16 \<Longrightarrow> d \<in> {0, 1, 2, 3, 4, 5, 6, 7, 8, 9, 10, 11, 12, 13, 14, 15}"
  by simp arith

lemma hex_value_hex_char: "d < 16 \<Longrightarrow> hex_value (hex_char d) = Some d"
  using below_sixteen [of d] by (auto simp: hex_value_def hex_char_def)

lemma hex4_control:
  assumes "(of_char c :: nat) < 32"
  shows "hex4 (CHR ''0'') (CHR ''0'') (hex_char ((of_char c :: nat) div 16)) (hex_char ((of_char c :: nat) mod 16)) = Some c"
proof -
  have a: "hex_value (hex_char ((of_char c :: nat) div 16)) = Some ((of_char c :: nat) div 16)"
    using assms by (intro hex_value_hex_char) auto
  have b: "hex_value (hex_char ((of_char c :: nat) mod 16)) = Some ((of_char c :: nat) mod 16)"
    by (intro hex_value_hex_char) auto
  have z: "hex_value (CHR ''0'') = Some 0" by (simp add: hex_value_def)
  show ?thesis unfolding hex4_def by (simp add: a b z)
qed

lemma parse_chars_escape:
  "parse_chars (escape_char c @ t) = map_option (apfst ((#) c)) (parse_chars t)"
  unfolding escape_char_def
  by (auto simp: hex4_control unescape_def)

lemma parse_chars_quote:
  "parse_chars (concat (map escape_char s) @ CHR 0x22 # rest) = Some (s, rest)"
proof (induction s)
  case Nil
  show ?case by simp
next
  case (Cons c s)
  then show ?case by (simp add: parse_chars_escape del: parse_chars.simps(2))
qed

lemma is_digit_digit_char: "d < 10 \<Longrightarrow> is_digit (digit_char d)"
  using below_ten [of d] by (auto simp: is_digit_def digit_char_def)

lemma digit_value_digit_char: "d < 10 \<Longrightarrow> digit_value (digit_char d) = d"
  using below_ten [of d] by (auto simp: digit_value_def digit_char_def)

lemma digits_all_digit: "\<forall>c \<in> set (digits n). is_digit c"
proof (induction n rule: digits.induct)
  case (1 n)
  show ?case
  proof (cases "n < 10")
    case True
    then show ?thesis by (subst digits.simps) (simp add: is_digit_digit_char)
  next
    case False
    then show ?thesis using 1 by (subst digits.simps) (simp add: is_digit_digit_char)
  qed
qed

lemma digits_nonempty: "digits n \<noteq> []"
  by (subst digits.simps) simp

lemma digits_value_append:
  "digits_value (xs @ [c]) = 10 * digits_value xs + digit_value c"
  by (simp add: digits_value_def)

lemma digits_value_digits: "digits_value (digits n) = n"
proof (induction n rule: digits.induct)
  case (1 n)
  show ?case
  proof (cases "n < 10")
    case True
    then show ?thesis
      by (subst digits.simps) (simp add: digits_value_def digit_value_digit_char)
  next
    case False
    then have "digits_value (digits (n div 10)) = n div 10" using 1 by simp
    with False show ?thesis
      by (subst digits.simps) (simp add: digits_value_append digit_value_digit_char)
  qed
qed

lemma digit_char_zero: "d < 10 \<Longrightarrow> digit_char d = CHR ''0'' \<Longrightarrow> d = 0"
proof -
  assume d: "d < 10" and e: "digit_char d = CHR ''0''"
  have "digit_value (digit_char d) = digit_value (CHR ''0'')" using e by simp
  then show "d = 0" using d by (simp add: digit_value_digit_char) (simp add: digit_value_def)
qed

lemma digits_leading: "hd (digits n) = CHR ''0'' \<Longrightarrow> length (digits n) = 1"
proof (induction n rule: digits.induct)
  case (1 n)
  show ?case
  proof (cases "n < 10")
    case True
    then show ?thesis by (subst digits.simps) simp
  next
    case False
    have hd_eq: "hd (digits n) = hd (digits (n div 10))"
      using False by (subst digits.simps) (simp add: digits_nonempty)
    then have "length (digits (n div 10)) = 1" using 1 False by simp
    then obtain c where c: "digits (n div 10) = [c]"
      by (cases "digits (n div 10)") auto
    have "c = CHR ''0''" using hd_eq 1(2) c by simp
    then have "digits_value (digits (n div 10)) = 0"
      using c by (simp add: digits_value_def digit_value_def)
    then have "n div 10 = 0" by (simp add: digits_value_digits)
    with False show ?thesis by simp
  qed
qed

lemma follow_ok_not_digit: "follow_ok r \<Longrightarrow> r \<noteq> [] \<Longrightarrow> \<not> is_digit (hd r) \<and> hd r \<notin> set ''.eE''"
  by (auto simp: follow_ok_def is_digit_def)

lemma takeWhile_digits:
  assumes "follow_ok r"
  shows "takeWhile is_digit (digits n @ r) = digits n"
    and "dropWhile is_digit (digits n @ r) = r"
proof -
  have a: "\<forall>c \<in> set (digits n). is_digit c" by (rule digits_all_digit)
  have b: "takeWhile is_digit r = []" "dropWhile is_digit r = r"
    using follow_ok_not_digit [OF assms] by (cases r; simp)+
  show "takeWhile is_digit (digits n @ r) = digits n"
    using a b by (simp add: takeWhile_append2)
  show "dropWhile is_digit (digits n @ r) = r"
    using a b by (simp add: dropWhile_append2)
qed

lemma parse_number_digits:
  assumes "follow_ok r"
  shows "parse_number (digits n @ r) = Some (JNum (int n), r)"
proof -
  obtain d ds where d: "digits n = d # ds" using digits_nonempty [of n] by (cases "digits n") auto
  have dd: "is_digit d" using digits_all_digit [of n] d by simp
  then have nm: "d \<noteq> CHR ''-''" by (auto simp: is_digit_def)
  have lead: "\<not> (hd (digits n) = CHR ''0'' \<and> 1 < length (digits n))"
    using digits_leading [of n] by auto
  have fr: "\<not> (r \<noteq> [] \<and> hd r \<in> set ''.eE'')"
    using follow_ok_not_digit [OF assms] by blast
  have neg: "\<not> (digits n @ r \<noteq> [] \<and> hd (digits n @ r) = CHR ''-'')"
    using d nm by simp
  show ?thesis
    unfolding parse_number_def Let_def
    using neg lead fr
    by (simp only: if_False takeWhile_digits [OF assms] digits_value_digits digits_nonempty) simp
qed

lemma parse_number_toString:
  assumes "follow_ok r"
  shows "parse_number (toString i @ r) = Some (JNum i, r)"
proof (cases "i < 0")
  case False
  then show ?thesis using parse_number_digits [OF assms, of "nat i"] by (simp add: toString_def)
next
  case True
  have lead: "\<not> (hd (digits (nat (- i))) = CHR ''0'' \<and> 1 < length (digits (nat (- i))))"
    using digits_leading [of "nat (- i)"] by auto
  have fr: "\<not> (r \<noteq> [] \<and> hd r \<in> set ''.eE'')"
    using follow_ok_not_digit [OF assms] by blast
  have "parse_number (CHR ''-'' # digits (nat (- i)) @ r) = Some (JNum i, r)"
    unfolding parse_number_def Let_def
    using lead fr True
    by (simp add: takeWhile_digits [OF assms] digits_value_digits digits_nonempty)
  then show ?thesis using True by (simp add: toString_def)
qed

subsection \<open>Values\<close>

lemma skip_ws_Cons: "\<not> is_ws c \<Longrightarrow> skip_ws (c # s) = c # s"
  by (simp add: skip_ws_def)

lemma is_digit_not_special:
  "is_digit c \<Longrightarrow> \<not> is_ws c \<and> c \<noteq> CHR ''{'' \<and> c \<noteq> CHR ''['' \<and> c \<noteq> CHR 0x22 \<and> c \<noteq> CHR '']'' \<and> c \<noteq> CHR ''}''"
  by (auto simp: is_digit_def is_ws_def)

lemma parse_value_string:
  "parse_value (Suc n) (CHR 0x22 # t) = map_option (apfst JStr) (parse_chars t)"
  by (simp add: skip_ws_def is_ws_def)

lemma number_start_not_special:
  assumes "c = CHR ''-'' \<or> is_digit c"
  shows "\<not> is_ws c \<and> c \<noteq> CHR ''{'' \<and> c \<noteq> CHR ''['' \<and> c \<noteq> CHR 0x22 \<and> c \<noteq> CHR '']''
           \<and> c \<noteq> CHR ''}''"
proof (cases "is_digit c")
  case True
  then show ?thesis by (rule is_digit_not_special)
next
  case False
  with assms have "c = CHR ''-''" by simp
  then show ?thesis by (simp add: is_ws_def)
qed

lemma parse_value_number:
  assumes "c = CHR ''-'' \<or> is_digit c"
  shows "parse_value (Suc n) (c # t) = parse_number (c # t)"
  using number_start_not_special [OF assms] assms
  by (simp add: skip_ws_def)

lemma parse_value_array:
  "\<not> is_ws d \<Longrightarrow> d \<noteq> CHR '']'' \<Longrightarrow>
   parse_value (Suc n) (CHR ''['' # d # t) = map_option (apfst JArr) (parse_elements n (d # t))"
  by (simp add: skip_ws_def is_ws_def)

lemma parse_value_object:
  "\<not> is_ws d \<Longrightarrow> d \<noteq> CHR ''}'' \<Longrightarrow>
   parse_value (Suc n) (CHR ''{'' # d # t) = map_option (apfst JObj) (parse_members n (d # t))"
  by (simp add: skip_ws_def is_ws_def)

lemma parse_value_empty_array: "parse_value (Suc n) (CHR ''['' # CHR '']'' # r) = Some (JArr [], r)"
  by (simp add: skip_ws_def is_ws_def)

lemma parse_value_empty_object: "parse_value (Suc n) (CHR ''{'' # CHR ''}'' # r) = Some (JObj [], r)"
  by (simp add: skip_ws_def is_ws_def)

lemma parse_value_literals:
  "parse_value (Suc n) (''null'' @ r) = Some (JNull, r)"
  "parse_value (Suc n) (''true'' @ r) = Some (JBool True, r)"
  "parse_value (Suc n) (''false'' @ r) = Some (JBool False, r)"
  by (simp_all add: skip_ws_def is_ws_def is_digit_def parse_literal_def)

lemma toString_head: "\<exists>c t. toString i = c # t \<and> (c = CHR ''-'' \<or> is_digit c)"
proof (cases "i < 0")
  case True
  then show ?thesis by (simp add: toString_def)
next
  case False
  obtain d ds where d: "digits (nat i) = d # ds"
    using digits_nonempty [of "nat i"] by (cases "digits (nat i)") auto
  have "is_digit d" using digits_all_digit [of "nat i"] d by simp
  then show ?thesis using False d by (simp add: toString_def)
qed

lemma stringify_head: "\<exists>c t. JSON_stringify j = c # t \<and> value_start c"
proof (cases j)
  case (JNum i)
  obtain c t where "toString i = c # t" "c = CHR ''-'' \<or> is_digit c"
    using toString_head by blast
  then show ?thesis using JNum number_start_not_special [of c]
    by (simp add: value_start_def)
qed (simp_all add: value_start_def is_ws_def quote_def)

lemma stringify_elements_head:
  "xs \<noteq> [] \<Longrightarrow> \<exists>c t. stringify_elements xs = c # t \<and> value_start c"
proof (cases xs)
  case Nil
  assume "xs \<noteq> []"
  with Nil show ?thesis by simp
next
  case (Cons x ys)
  obtain c t where "JSON_stringify x = c # t" "value_start c" using stringify_head by blast
  then show ?thesis using Cons by (cases ys) auto
qed

lemma stringify_members_head:
  "ms \<noteq> [] \<Longrightarrow> \<exists>t. stringify_members ms = CHR 0x22 # t"
proof (cases ms)
  case Nil
  assume "ms \<noteq> []"
  with Nil show ?thesis by simp
next
  case (Cons m ys)
  then show ?thesis by (cases m; cases ys) (auto simp: quote_def)
qed

lemma parse_value_leaf:
  assumes "follow_ok r"
  shows "parse_value (Suc n) (toString i @ r) = Some (JNum i, r)"
    and "parse_value (Suc n) (quote s @ r) = Some (JStr s, r)"
proof -
  obtain c t where ct: "toString i = c # t" "c = CHR ''-'' \<or> is_digit c"
    using toString_head by blast
  have "parse_value (Suc n) (c # t @ r) = parse_number (c # t @ r)"
    using ct(2) by (rule parse_value_number)
  then show "parse_value (Suc n) (toString i @ r) = Some (JNum i, r)"
    using parse_number_toString [OF assms, of i] ct(1) by simp
  show "parse_value (Suc n) (quote s @ r) = Some (JStr s, r)"
    by (simp add: quote_def parse_value_string parse_chars_quote del: parse_value.simps)
qed

lemma parse_members_step:
  assumes "parse_value n (t @ r) = Some (v, r)"
  shows "parse_members (Suc n) (quote k @ '':'' @ t @ r) =
     (case skip_ws r of
        [] \<Rightarrow> None
      | e # r4 \<Rightarrow>
          if e = CHR '','' then map_option (apfst ((#) (k, v))) (parse_members n r4)
          else if e = CHR ''}'' then Some ([(k, v)], r4)
          else None)"
proof -
  have "parse_chars (concat (map escape_char k) @ CHR 0x22 # CHR '':'' # t @ r)
          = Some (k, CHR '':'' # t @ r)"
    by (rule parse_chars_quote)
  then show ?thesis using assms
    by (simp add: quote_def skip_ws_def is_ws_def del: parse_value.simps)
qed

lemma parse_roundtrip:
  "(\<forall>n r. cost j \<le> n \<longrightarrow> follow_ok r \<longrightarrow> parse_value n (JSON_stringify j @ r) = Some (j, r))"
  "(xs \<noteq> [] \<longrightarrow> (\<forall>n r. cost_elements xs \<le> n \<longrightarrow>
       parse_elements n (stringify_elements xs @ CHR '']'' # r) = Some (xs, r)))"
  "(ms \<noteq> [] \<longrightarrow> (\<forall>n r. cost_members ms \<le> n \<longrightarrow>
       parse_members n (stringify_members ms @ CHR ''}'' # r) = Some (ms, r)))"
proof (induction j and xs and ms rule: JSON_stringify_stringify_elements_stringify_members.induct)
  case 1
  show ?case
  proof (intro allI impI)
    fix n :: nat and r assume "cost JNull \<le> n"
    then obtain m where "n = Suc m" by (cases n) auto
    then show "parse_value n (JSON_stringify JNull @ r) = Some (JNull, r)"
      using parse_value_literals(1) [of m r] by simp
  qed
next
  case (2 b)
  show ?case
  proof (intro allI impI)
    fix n :: nat and r assume "cost (JBool b) \<le> n"
    then obtain m where "n = Suc m" by (cases n) auto
    then show "parse_value n (JSON_stringify (JBool b) @ r) = Some (JBool b, r)"
      using parse_value_literals(2,3) [of m r] by simp
  qed
next
  case (3 i)
  show ?case
  proof (intro allI impI)
    fix n :: nat and r assume "cost (JNum i) \<le> n" and f: "follow_ok r"
    then obtain m where "n = Suc m" by (cases n) auto
    then show "parse_value n (JSON_stringify (JNum i) @ r) = Some (JNum i, r)"
      using parse_value_leaf(1) [OF f] by simp
  qed
next
  case (4 s)
  show ?case
  proof (intro allI impI)
    fix n :: nat and r assume "cost (JStr s) \<le> n" and f: "follow_ok r"
    then obtain m where "n = Suc m" by (cases n) auto
    then show "parse_value n (JSON_stringify (JStr s) @ r) = Some (JStr s, r)"
      using parse_value_leaf(2) [OF f] by simp
  qed
next
  case (5 xs)
  show ?case
  proof (intro allI impI)
    fix n :: nat and r assume c: "cost (JArr xs) \<le> n"
    then obtain m where m: "n = Suc m" "cost_elements xs \<le> m" by (cases n) auto
    show "parse_value n (JSON_stringify (JArr xs) @ r) = Some (JArr xs, r)"
    proof (cases "xs = []")
      case True
      then show ?thesis using m parse_value_empty_array [of m r] by simp
    next
      case False
      obtain d t where dt: "stringify_elements xs = d # t" "value_start d"
        using stringify_elements_head [OF False] by blast
      have "parse_elements m (stringify_elements xs @ CHR '']'' # r) = Some (xs, r)"
        using 5 False m by blast
      then show ?thesis using dt m
        parse_value_array [of d m "t @ CHR '']'' # r"]
        by (simp add: value_start_def del: parse_value.simps)
    qed
  qed
next
  case (6 ms)
  show ?case
  proof (intro allI impI)
    fix n :: nat and r assume c: "cost (JObj ms) \<le> n"
    then obtain m where m: "n = Suc m" "cost_members ms \<le> m" by (cases n) auto
    show "parse_value n (JSON_stringify (JObj ms) @ r) = Some (JObj ms, r)"
    proof (cases "ms = []")
      case True
      then show ?thesis using m parse_value_empty_object [of m r] by simp
    next
      case False
      obtain t where dt: "stringify_members ms = CHR 0x22 # t"
        using stringify_members_head [OF False] by blast
      have "parse_members m (stringify_members ms @ CHR ''}'' # r) = Some (ms, r)"
        using 6 False m by blast
      then show ?thesis using dt m
        parse_value_object [of "CHR 0x22" m "t @ CHR ''}'' # r"]
        by (simp add: is_ws_def del: parse_value.simps)
    qed
  qed
next
  case 7
  show ?case by simp
next
  case (8 x)
  show ?case
  proof (intro allI impI)
    fix n :: nat and r assume c: "cost_elements [x] \<le> n"
    then obtain m where m: "n = Suc m" "cost x \<le> m" by (cases n) auto
    have "parse_value m (JSON_stringify x @ CHR '']'' # r) = Some (x, CHR '']'' # r)"
      using 8 m by (simp add: follow_ok_def)
    then show "parse_elements n (stringify_elements [x] @ CHR '']'' # r) = Some ([x], r)"
      using m by (simp add: skip_ws_def is_ws_def)
  qed
next
  case (9 x y ys)
  show ?case
  proof (intro allI impI)
    fix n :: nat and r assume c: "cost_elements (x # y # ys) \<le> n"
    then obtain m where m: "n = Suc m" "cost x \<le> m" "cost_elements (y # ys) \<le> m"
      by (cases n) auto
    have a: "parse_value m (JSON_stringify x @ CHR '','' # stringify_elements (y # ys) @ CHR '']'' # r)
           = Some (x, CHR '','' # stringify_elements (y # ys) @ CHR '']'' # r)"
      using 9(1) m by (simp add: follow_ok_def)
    have b: "parse_elements m (stringify_elements (y # ys) @ CHR '']'' # r) = Some (y # ys, r)"
      using 9(2) m by blast
    show "parse_elements n (stringify_elements (x # y # ys) @ CHR '']'' # r) = Some (x # y # ys, r)"
      using m a b by (simp add: skip_ws_def is_ws_def)
  qed
next
  case 10
  show ?case by simp
next
  case (11 k v)
  show ?case
  proof (intro allI impI)
    fix n :: nat and r assume c: "cost_members [(k, v)] \<le> n"
    then obtain m where m: "n = Suc m" "cost v \<le> m" by (cases n) auto
    have "parse_value m (JSON_stringify v @ CHR ''}'' # r) = Some (v, CHR ''}'' # r)"
      using 11 m by (simp add: follow_ok_def)
    then show "parse_members n (stringify_members [(k, v)] @ CHR ''}'' # r) = Some ([(k, v)], r)"
      using m parse_members_step [of m "JSON_stringify v" "CHR ''}'' # r" v k]
      by (simp add: skip_ws_def is_ws_def del: parse_members.simps)
  qed
next
  case (12 k v m' ms)
  show ?case
  proof (intro allI impI)
    fix n :: nat and r assume c: "cost_members ((k, v) # m' # ms) \<le> n"
    then obtain m where m: "n = Suc m" "cost v \<le> m" "cost_members (m' # ms) \<le> m"
      by (cases n) auto
    let ?rest = "CHR '','' # stringify_members (m' # ms) @ CHR ''}'' # r"
    have a: "parse_value m (JSON_stringify v @ ?rest) = Some (v, ?rest)"
      using 12(1) m by (simp add: follow_ok_def)
    have b: "parse_members m (stringify_members (m' # ms) @ CHR ''}'' # r) = Some (m' # ms, r)"
      using 12(2) m by blast
    show "parse_members n (stringify_members ((k, v) # m' # ms) @ CHR ''}'' # r)
            = Some ((k, v) # m' # ms, r)"
      using m b parse_members_step [OF a, of k]
      by (simp add: skip_ws_def is_ws_def del: parse_members.simps)
  qed
qed

lemma cost_le_length:
  "cost j \<le> length (JSON_stringify j)"
  "cost_elements xs \<le> length (stringify_elements xs) + 1"
  "cost_members ms \<le> length (stringify_members ms) + 1"
proof (induction j and xs and ms rule: JSON_stringify_stringify_elements_stringify_members.induct)
  case (3 i)
  obtain c t where "toString i = c # t" using toString_head by blast
  then show ?case by simp
next
  case (4 s)
  show ?case by (simp add: quote_def)
qed (auto simp: quote_def)

lemma JSON_parse_stringify: "JSON_parse (JSON_stringify j) = Some j"
proof -
  have "parse_value (Suc (length (JSON_stringify j))) (JSON_stringify j @ []) = Some (j, [])"
    using parse_roundtrip(1) [of j] cost_le_length(1) [of j]
    by (simp add: follow_ok_def del: parse_value.simps)
  then show ?thesis
    by (simp add: JSON_parse_def skip_ws_def del: parse_value.simps)
qed

subsection \<open>The typed store\<close>

lemma those_map_inverse:
  "(\<And>x. f (g x) = Some x) \<Longrightarrow> those (map (f \<circ> g) xs) = Some xs"
  by (induction xs) simp_all

lemma note_fromJSON_toJSON: "note_fromJSON (note_toJSON n) = Some n"
  by (cases "note_title n"; cases "note_text n")
     (simp_all add: note_toJSON_def optional_member_def get_member_def)

lemma notebook_fromJSON_toJSON: "notebook_fromJSON (notebook_toJSON nb) = Some nb"
  by (simp add: notebook_toJSON_def get_member_def those_map_inverse note_fromJSON_toJSON)

lemma store_fromJSON_toJSON: "store_fromJSON (store_toJSON db) = Some db"
  by (simp add: store_toJSON_def get_member_def those_map_inverse notebook_fromJSON_toJSON)

lemma readDB_writeDB: "readDB (writeDB w) = Inr (writeDB w)"
  by (simp add: readDB_def writeDB_def JSON_parse_stringify store_fromJSON_toJSON)

lemma noteKeeperDB_writeDB: "noteKeeperDB (writeDB w) = noteKeeperDB w"
  by (simp add: writeDB_def)

lemma persisted_writeDB: "persisted (writeDB w) = Inr (noteKeeperDB w)"
  by (simp add: persisted_def readDB_writeDB noteKeeperDB_writeDB)

lemma initDB_empty_slot: "initDB None = Inr empty_world"
  by (simp add: initDB_def empty_world_def)

lemma readDB_persisted: "persisted w = Inr db \<Longrightarrow> readDB w = Inr (w\<lparr>noteKeeperDB := db\<rparr>)"
  by (auto simp: persisted_def readDB_def split: option.splits sum.splits)

lemma persisted_reloaded: "persisted w = Inr db \<Longrightarrow> persisted (w\<lparr>noteKeeperDB := db'\<rparr>) = Inr db"
  by (auto simp: persisted_def readDB_def split: option.splits sum.splits)

subsection \<open>Lists: find, findIndex, splice, writes through a found element\<close>

lemma find_None_iff_absent: "find P xs = None \<longleftrightarrow> (\<forall>x \<in> set xs. \<not> P x)"
  by (induction xs) auto

lemma update_first_absent: "\<forall>x \<in> set xs. \<not> P x \<Longrightarrow> update_first P f xs = xs"
  by (induction xs) auto

lemma find_first_index:
  "find P xs = Some x \<Longrightarrow>
     \<exists>i < length xs. xs ! i = x \<and> P x \<and> (\<forall>j < i. \<not> P (xs ! j))
        \<and> update_first P f xs = xs[i := f x]"
proof (induction xs)
  case Nil
  then show ?case by simp
next
  case (Cons y ys)
  show ?case
  proof (cases "P y")
    case True
    with Cons.prems have "y = x" by simp
    with True show ?thesis by (intro exI [of _ 0]) simp
  next
    case False
    with Cons.prems have "find P ys = Some x" by simp
    from Cons.IH [OF this] obtain i where i: "i < length ys" "ys ! i = x" "P x"
      "\<forall>j < i. \<not> P (ys ! j)" "update_first P f ys = ys[i := f x]" by blast
    have "\<forall>j < Suc i. \<not> P ((y # ys) ! j)"
      using False i(4) by (auto simp: nth_Cons split: nat.splits)
    with i False show ?thesis by (intro exI [of _ "Suc i"]) simp
  qed
qed

lemma findIndex_from_absent: "\<forall>x \<in> set xs. \<not> P x \<Longrightarrow> findIndex_from P xs k = - 1"
  by (induction xs arbitrary: k) auto

lemma findIndex_from_find:
  "find P xs = Some x \<Longrightarrow>
     \<exists>i < length xs. findIndex_from P xs k = k + int i \<and> xs ! i = x \<and> P x
        \<and> (\<forall>j < i. \<not> P (xs ! j))"
proof (induction xs arbitrary: k)
  case Nil
  then show ?case by simp
next
  case (Cons y ys)
  show ?case
  proof (cases "P y")
    case True
    with Cons.prems have "y = x" by simp
    with True show ?thesis by (intro exI [of _ 0]) simp
  next
    case False
    with Cons.prems have "find P ys = Some x" by simp
    from Cons.IH [OF this, of "k + 1"] obtain i where i: "i < length ys"
      "findIndex_from P ys (k + 1) = k + 1 + int i" "ys ! i = x" "P x"
      "\<forall>j < i. \<not> P (ys ! j)" by blast
    have "\<forall>j < Suc i. \<not> P ((y # ys) ! j)"
      using False i(5) by (auto simp: nth_Cons split: nat.splits)
    with i False show ?thesis by (intro exI [of _ "Suc i"]) simp
  qed
qed

lemma splice_last: "splice xs (- 1) 1 = butlast xs"
proof (cases xs rule: rev_cases)
  case Nil
  then show ?thesis by (simp add: splice_def)
next
  case (snoc ys y)
  then show ?thesis by (simp add: splice_def Let_def)
qed

lemma splice_at: "i < length xs \<Longrightarrow> splice xs (int i) 1 = take i xs @ drop (Suc i) xs"
  by (simp add: splice_def Let_def min_def max_def nat_add_distrib)

lemma length_remove_at: "i < length xs \<Longrightarrow> Suc (length (take i xs @ drop (Suc i) xs)) = length xs"
  by simp

lemma remove_only_match:
  assumes i: "i < length xs" and one: "length (filter P xs) = 1" and p: "P (xs ! i)"
  shows "\<forall>x \<in> set (take i xs @ drop (Suc i) xs). \<not> P x"
proof -
  have "xs = take i xs @ xs ! i # drop (Suc i) xs" using i by (simp add: id_take_nth_drop)
  then have "filter P xs = filter P (take i xs) @ xs ! i # filter P (drop (Suc i) xs)"
    using p by (metis filter.simps(2) filter_append)
  then have "length (filter P (take i xs)) + length (filter P (drop (Suc i) xs)) = 0"
    using one by simp
  then have "filter P (take i xs) = []" "filter P (drop (Suc i) xs) = []" by simp_all
  then show ?thesis by (auto simp: filter_empty_conv)
qed

subsection \<open>The operations on a world whose slot holds a store\<close>

lemma written_world:
  "noteKeeperDB (writeDB (w\<lparr>noteKeeperDB := db\<rparr>)) = db"
  "persisted (writeDB (w\<lparr>noteKeeperDB := db\<rparr>)) = Inr db"
  by (simp_all add: persisted_writeDB noteKeeperDB_writeDB)

lemma findNotebook_None_iff:
  "findNotebook db notebookId = None \<longleftrightarrow> notebookId \<notin> notebook_id ` set (notebooks db)"
  by (auto simp: findNotebook_def find_None_iff_absent)

lemma findNotebook_id: "findNotebook db notebookId = Some nb \<Longrightarrow> notebook_id nb = notebookId"
  unfolding findNotebook_def by (auto dest: find_first_index [where f = "\<lambda>x. x"])

lemma update_notebook_absent:
  "findNotebook db notebookId = None \<Longrightarrow> update_notebook db notebookId f = db"
  by (simp add: update_notebook_def findNotebook_def find_None_iff_absent update_first_absent)

lemma update_notebook_found:
  assumes "findNotebook db notebookId = Some nb"
  shows "\<exists>i < length (notebooks db). notebooks db ! i = nb
           \<and> (\<forall>j < i. notebook_id (notebooks db ! j) \<noteq> notebookId)
           \<and> notebooks (update_notebook db notebookId f) = (notebooks db)[i := f nb]"
  using find_first_index [OF assms [unfolded findNotebook_def], of f]
  by (auto simp: update_notebook_def)

lemma find_list_update_first:
  "i < length xs \<Longrightarrow> \<forall>j < i. \<not> P (xs ! j) \<Longrightarrow> P y \<Longrightarrow> find P (xs[i := y]) = Some y"
proof (induction xs arbitrary: i)
  case Nil
  then show ?case by simp
next
  case (Cons x xs)
  show ?case
  proof (cases i)
    case 0
    with Cons.prems show ?thesis by simp
  next
    case (Suc k)
    have "\<not> P x" using Cons.prems(2) Suc by (metis nth_Cons_0 zero_less_Suc)
    moreover have "\<forall>j < k. \<not> P (xs ! j)"
      using Cons.prems(2) Suc by (metis Suc_less_eq nth_Cons_Suc)
    ultimately show ?thesis using Cons.IH [of k] Cons.prems Suc by simp
  qed
qed

lemma findNotebook_update_notebook:
  assumes "findNotebook db notebookId = Some nb" and "notebook_id (f nb) = notebookId"
  shows "findNotebook (update_notebook db notebookId f) notebookId = Some (f nb)"
proof -
  obtain i where i: "i < length (notebooks db)"
    "\<forall>j < i. notebook_id (notebooks db ! j) \<noteq> notebookId"
    "notebooks (update_notebook db notebookId f) = (notebooks db)[i := f nb]"
    using update_notebook_found [OF assms(1), of f] by blast
  show ?thesis
    unfolding findNotebook_def i(3)
    using i(1,2) assms(2) by (intro find_list_update_first) auto
qed

lemma db_delete_note_found:
  assumes "persisted w = Inr db" and "findNotebook db notebookId = Some nb"
  shows "db_delete_note notebookId noteId w =
     (Inr (splice (notebook_notes nb) (findNoteIndex nb noteId) 1),
      writeDB (w\<lparr>noteKeeperDB := update_notebook db notebookId
         (\<lambda>notebook. notebook\<lparr>notebook_notes :=
             splice (notebook_notes nb) (findNoteIndex nb noteId) 1\<rparr>)\<rparr>))"
  using assms by (simp add: db_delete_note_def readDB_persisted Let_def)

lemma findNoteIndex_absent:
  "\<forall>n \<in> set (notebook_notes nb). note_id n \<noteq> noteId \<Longrightarrow> findNoteIndex nb noteId = - 1"
  by (simp add: findNoteIndex_def findIndex_def findIndex_from_absent)

text \<open>
  C10. When the notebook is found, has notes, and none of them has the given note id,
  \<^verbatim>\<open>db.delete.note\<close> removes the last note of that notebook (the oldest one) and returns the
  shortened sequence; the notebook is not left as it was.
\<close>

theorem delete_note_absent_id_removes_last:
  assumes "persisted w = Inr db"
    and "findNotebook db notebookId = Some nb"
    and "notebook_notes nb \<noteq> []"
    and "noteId \<notin> note_id ` set (notebook_notes nb)"
  shows "\<exists>w' i. db_delete_note notebookId noteId w = (Inr (butlast (notebook_notes nb)), w')
           \<and> i < length (notebooks db) \<and> notebooks db ! i = nb
           \<and> notebooks (noteKeeperDB w')
               = (notebooks db)[i := nb\<lparr>notebook_notes := butlast (notebook_notes nb)\<rparr>]
           \<and> persisted w' = Inr (noteKeeperDB w')
           \<and> findNotebook (noteKeeperDB w') notebookId
               = Some (nb\<lparr>notebook_notes := butlast (notebook_notes nb)\<rparr>)
           \<and> length (butlast (notebook_notes nb)) < length (notebook_notes nb)"
proof -
  let ?f = "\<lambda>notebook. notebook\<lparr>notebook_notes := butlast (notebook_notes nb)\<rparr>"
  let ?w = "writeDB (w\<lparr>noteKeeperDB := update_notebook db notebookId ?f\<rparr>)"
  have absent: "\<forall>n \<in> set (notebook_notes nb). note_id n \<noteq> noteId"
    using assms(4) by auto
  have run: "db_delete_note notebookId noteId w = (Inr (butlast (notebook_notes nb)), ?w)"
    using db_delete_note_found [OF assms(1,2), of noteId] findNoteIndex_absent [OF absent]
    by (simp add: splice_last)
  obtain i where i: "i < length (notebooks db)" "notebooks db ! i = nb"
    "notebooks (update_notebook db notebookId ?f) = (notebooks db)[i := ?f nb]"
    using update_notebook_found [OF assms(2), of ?f] by blast
  have look: "findNotebook (update_notebook db notebookId ?f) notebookId = Some (?f nb)"
    using findNotebook_update_notebook [OF assms(2), of ?f] findNotebook_id [OF assms(2)]
    by simp
  have short: "length (butlast (notebook_notes nb)) < length (notebook_notes nb)"
    using assms(3) by (simp add: length_greater_0_conv)
  show ?thesis
    using run i look short by (intro exI [of _ ?w] exI [of _ i]) (simp add: written_world)
qed

theorem delete_note_absent_id_removes_last_witness:
  "persisted example_world = Inr example_store
   \<and> findNotebook example_store ''1000'' = Some example_notebook
   \<and> notebook_notes example_notebook \<noteq> []
   \<and> ''9'' \<notin> note_id ` set (notebook_notes example_notebook)
   \<and> fst (db_delete_note ''1000'' ''9'' example_world) = Inr [example_note_new]"
proof -
  have h1: "persisted example_world = Inr example_store"
    by (simp add: example_world_def persisted_writeDB)
  have h2: "findNotebook example_store ''1000'' = Some example_notebook" by code_simp
  have h3: "notebook_notes example_notebook \<noteq> []" by code_simp
  have h4: "''9'' \<notin> note_id ` set (notebook_notes example_notebook)"
    by (simp add: example_notebook_def example_note_new_def example_note_old_def)
  have "butlast (notebook_notes example_notebook) = [example_note_new]" by code_simp
  then show ?thesis
    using delete_note_absent_id_removes_last [OF h1 h2 h3 h4] h1 h2 h3 h4 by auto
qed

lemma findNoteIndex_found:
  assumes "find (\<lambda>note. note_id note = noteId) (notebook_notes nb) = Some n"
  shows "\<exists>i < length (notebook_notes nb). findNoteIndex nb noteId = int i
           \<and> note_id (notebook_notes nb ! i) = noteId"
  using findIndex_from_find [OF assms, of 0]
  by (auto simp: findNoteIndex_def findIndex_def)

lemma filter_one_find:
  assumes "length (filter P xs) = 1"
  shows "\<exists>x. find P xs = Some x"
proof (cases "find P xs")
  case None
  then have "filter P xs = []" by (simp add: find_None_iff_absent filter_empty_conv)
  with assms show ?thesis by simp
next
  case (Some x)
  then show ?thesis by blast
qed

text \<open>
  C9. When the notebook is found and exactly one of its N notes has the given id,
  \<^verbatim>\<open>db.delete.note\<close> leaves that notebook with N - 1 notes, none of which has that id, and
  returns the remaining notes.
\<close>

theorem delete_note_removes_the_note:
  assumes "persisted w = Inr db"
    and "findNotebook db notebookId = Some nb"
    and "length (filter (\<lambda>note. note_id note = noteId) (notebook_notes nb)) = 1"
  shows "\<exists>w' remaining. db_delete_note notebookId noteId w = (Inr remaining, w')
           \<and> Suc (length remaining) = length (notebook_notes nb)
           \<and> noteId \<notin> note_id ` set remaining
           \<and> findNotebook (noteKeeperDB w') notebookId
               = Some (nb\<lparr>notebook_notes := remaining\<rparr>)
           \<and> persisted w' = Inr (noteKeeperDB w')"
proof -
  let ?P = "\<lambda>note. note_id note = noteId"
  obtain n where n: "find ?P (notebook_notes nb) = Some n"
    using filter_one_find [OF assms(3)] by blast
  obtain i where i: "i < length (notebook_notes nb)" "findNoteIndex nb noteId = int i"
    "note_id (notebook_notes nb ! i) = noteId"
    using findNoteIndex_found [OF n] by blast
  let ?rem = "take i (notebook_notes nb) @ drop (Suc i) (notebook_notes nb)"
  let ?f = "\<lambda>notebook. notebook\<lparr>notebook_notes := ?rem\<rparr>"
  let ?w = "writeDB (w\<lparr>noteKeeperDB := update_notebook db notebookId ?f\<rparr>)"
  have run: "db_delete_note notebookId noteId w = (Inr ?rem, ?w)"
    using db_delete_note_found [OF assms(1,2), of noteId] i(1,2) by (simp add: splice_at)
  have len: "Suc (length ?rem) = length (notebook_notes nb)"
    using i(1) by (rule length_remove_at)
  have none: "\<forall>x \<in> set ?rem. \<not> ?P x"
    using remove_only_match [OF i(1) assms(3)] i(3) by blast
  then have gone: "noteId \<notin> note_id ` set ?rem" by auto
  have look: "findNotebook (update_notebook db notebookId ?f) notebookId = Some (?f nb)"
    using findNotebook_update_notebook [OF assms(2), of ?f] findNotebook_id [OF assms(2)]
    by simp
  show ?thesis
    using run len gone look
    by (intro exI [of _ ?w] exI [of _ ?rem]) (simp add: written_world)
qed

theorem delete_note_removes_the_note_witness:
  "persisted example_world = Inr example_store
   \<and> findNotebook example_store ''1000'' = Some example_notebook
   \<and> length (filter (\<lambda>note. note_id note = ''3000'') (notebook_notes example_notebook)) = 1
   \<and> (\<exists>w' remaining. db_delete_note ''1000'' ''3000'' example_world = (Inr remaining, w')
         \<and> Suc (length remaining) = length (notebook_notes example_notebook)
         \<and> ''3000'' \<notin> note_id ` set remaining
         \<and> findNotebook (noteKeeperDB w') ''1000''
              = Some (example_notebook\<lparr>notebook_notes := remaining\<rparr>)
         \<and> persisted w' = Inr (noteKeeperDB w'))"
proof -
  have h1: "persisted example_world = Inr example_store"
    by (simp add: example_world_def persisted_writeDB)
  have h2: "findNotebook example_store ''1000'' = Some example_notebook" by code_simp
  have h3: "length (filter (\<lambda>note. note_id note = ''3000'') (notebook_notes example_notebook)) = 1"
    by (simp add: example_notebook_def example_note_new_def example_note_old_def)
  show ?thesis
    using delete_note_removes_the_note [OF h1 h2 h3] h1 h2 h3 by blast
qed

subsection \<open>Deleting a notebook\<close>

lemma db_delete_notebook_loaded:
  assumes "persisted w = Inr db"
  shows "db_delete_notebook notebookId w =
     (Inr (), writeDB (w\<lparr>noteKeeperDB :=
        db\<lparr>notebooks := splice (notebooks db) (findNotebookIndex db notebookId) 1\<rparr>\<rparr>))"
  using assms by (simp add: db_delete_notebook_def readDB_persisted Let_def)

lemma db_delete_notebook_absent:
  assumes "persisted w = Inr db" and "notebookId \<notin> notebook_id ` set (notebooks db)"
  shows "noteKeeperDB (snd (db_delete_notebook notebookId w)) = db\<lparr>notebooks := butlast (notebooks db)\<rparr>"
    and "persisted (snd (db_delete_notebook notebookId w)) = Inr (db\<lparr>notebooks := butlast (notebooks db)\<rparr>)"
proof -
  have "\<forall>x \<in> set (notebooks db). notebook_id x \<noteq> notebookId" using assms(2) by auto
  then have "findNotebookIndex db notebookId = - 1"
    by (simp add: findNotebookIndex_def findIndex_def findIndex_from_absent)
  then have run: "db_delete_notebook notebookId w =
      (Inr (), writeDB (w\<lparr>noteKeeperDB := db\<lparr>notebooks := butlast (notebooks db)\<rparr>\<rparr>))"
    using db_delete_notebook_loaded [OF assms(1), of notebookId] by (simp add: splice_last)
  show "noteKeeperDB (snd (db_delete_notebook notebookId w)) = db\<lparr>notebooks := butlast (notebooks db)\<rparr>"
    by (simp add: run written_world)
  show "persisted (snd (db_delete_notebook notebookId w)) = Inr (db\<lparr>notebooks := butlast (notebooks db)\<rparr>)"
    by (simp add: run written_world)
qed

text \<open>
  C1. The claim that \<^verbatim>\<open>db.delete.notebook\<close> with an id that matches no notebook leaves the
  store unchanged, evaluated on the store with the notebooks "1000" and "4000" and the
  id "9": \<^verbatim>\<open>findNotebookIndex\<close> returns -1, \<^verbatim>\<open>splice(-1, 1)\<close> removes the last notebook, and
  the store that is written back has lost the notebook "4000".
\<close>

theorem delete_notebook_absent_id_removes_last:
  "persisted example_world = Inr \<lparr>notebooks = [example_notebook, example_other]\<rparr>
   \<and> findNotebookIndex \<lparr>notebooks = [example_notebook, example_other]\<rparr> ''9'' = - 1
   \<and> fst (db_delete_notebook ''9'' example_world) = Inr ()
   \<and> noteKeeperDB (snd (db_delete_notebook ''9'' example_world))
        = \<lparr>notebooks = [example_notebook]\<rparr>
   \<and> persisted (snd (db_delete_notebook ''9'' example_world))
        = Inr \<lparr>notebooks = [example_notebook]\<rparr>"
proof -
  have h1: "persisted example_world = Inr example_store"
    by (simp add: example_world_def persisted_writeDB)
  have h2: "''9'' \<notin> notebook_id ` set (notebooks example_store)"
    by (simp add: example_store_def example_notebook_def example_other_def)
  have h3: "findNotebookIndex \<lparr>notebooks = [example_notebook, example_other]\<rparr> ''9'' = - 1"
    by (simp add: findNotebookIndex_def findIndex_def example_notebook_def example_other_def)
  have h4: "fst (db_delete_notebook ''9'' example_world) = Inr ()"
    using db_delete_notebook_loaded [OF h1, of "''9''"] by simp
  show ?thesis
    using h1 h3 h4 db_delete_notebook_absent [OF h1 h2]
    by (simp add: example_store_def)
qed

subsection \<open>Creating notes\<close>

lemma db_post_note_loaded:
  assumes "persisted w = Inr db"
  shows "db_post_note notebookId object now1 now2 w =
     (Inr (noteData notebookId object now1 now2),
      writeDB (w\<lparr>noteKeeperDB := update_notebook db notebookId
         (\<lambda>notebook. notebook\<lparr>notebook_notes :=
            noteData notebookId object now1 now2 # notebook_notes notebook\<rparr>)\<rparr>))"
  using assms by (simp add: db_post_note_def noteData_def readDB_persisted Let_def)

lemma db_get_note_loaded:
  assumes "persisted w = Inr db"
  shows "fst (db_get_note notebookId w) =
     (case findNotebook db notebookId of
        None \<Rightarrow> Inl TypeError
      | Some notebook \<Rightarrow> Inr (notebook_notes notebook))"
  using assms by (simp add: db_get_note_def readDB_persisted split: option.splits)

text \<open>
  C2, as the code has it. When the notebook id matches no notebook, \<^verbatim>\<open>db.post.note\<close>
  leaves the store unchanged, in memory and in the slot, and returns the note object it
  has built (generated id, the given notebook id, the object's fields, the clock reading),
  which is stored nowhere.
\<close>

theorem post_note_absent_notebook:
  assumes "persisted w = Inr db"
    and "notebookId \<notin> notebook_id ` set (notebooks db)"
  shows "\<exists>w'. db_post_note notebookId object now1 now2 w =
           (Inr \<lparr>note_id = (case obj_id object of Some v \<Rightarrow> v | None \<Rightarrow> generateID now1),
                 note_notebookId =
                   (case obj_notebookId object of Some v \<Rightarrow> v | None \<Rightarrow> notebookId),
                 note_title = obj_title object,
                 note_text = obj_text object,
                 note_postedOn = now2\<rparr>, w')
           \<and> noteKeeperDB w' = db \<and> persisted w' = Inr db"
proof -
  have "findNotebook db notebookId = None"
    using assms(2) by (simp add: findNotebook_None_iff)
  then show ?thesis
    using db_post_note_loaded [OF assms(1), of notebookId object now1 now2]
    by (simp add: update_notebook_absent written_world noteData_def)
qed

theorem post_note_absent_notebook_witness:
  "persisted example_world = Inr example_store
   \<and> ''9'' \<notin> notebook_id ` set (notebooks example_store)
   \<and> (\<exists>w'. db_post_note ''9'' example_object 5000 5001 example_world =
           (Inr \<lparr>note_id = ''5000'', note_notebookId = ''9'', note_title = Some ''e'',
                 note_text = Some ''f'', note_postedOn = 5001\<rparr>, w')
         \<and> noteKeeperDB w' = example_store \<and> persisted w' = Inr example_store)"
proof -
  have h1: "persisted example_world = Inr example_store"
    by (simp add: example_world_def persisted_writeDB)
  have h2: "''9'' \<notin> notebook_id ` set (notebooks example_store)"
    by (simp add: example_store_def example_notebook_def example_other_def)
  have g: "generateID 5000 = ''5000''"
    by (simp add: generateID_def toString_def digits.simps digit_char_def)
  show ?thesis
    using post_note_absent_notebook [OF h1 h2, of example_object 5000 5001] h1 h2
    by (simp add: example_object_def g)
qed

text \<open>
  C2, as the claim states it, fails: on the example store, which has no notebook "9",
  the call returns a note, not \<^verbatim>\<open>undefined\<close>.
\<close>

theorem post_note_absent_notebook_returns_note:
  "findNotebook example_store ''9'' = None
   \<and> fst (db_post_note ''9'' example_object 5000 5001 example_world)
       = Inr \<lparr>note_id = ''5000'', note_notebookId = ''9'', note_title = Some ''e'',
              note_text = Some ''f'', note_postedOn = 5001\<rparr>"
proof -
  have h1: "persisted example_world = Inr example_store"
    by (simp add: example_world_def persisted_writeDB)
  have h2: "findNotebook example_store ''9'' = None" by code_simp
  have g: "generateID 5000 = ''5000''"
    by (simp add: generateID_def toString_def digits.simps digit_char_def)
  show ?thesis
    using db_post_note_loaded [OF h1, of "''9''" example_object 5000 5001] h2
    by (simp add: noteData_def example_object_def g)
qed

text \<open>
  C3. In a store that has the notebook, after creating note A and then note B in it,
  \<^verbatim>\<open>db.get.note\<close> returns B, then A, then the notes that were there: new notes are put at
  the front.
\<close>

theorem post_note_most_recent_first:
  assumes "persisted w = Inr db"
    and "findNotebook db notebookId = Some nb"
  shows "\<exists>A B wA wB.
           db_post_note notebookId objectA a1 a2 w = (Inr A, wA)
           \<and> db_post_note notebookId objectB b1 b2 wA = (Inr B, wB)
           \<and> fst (db_get_note notebookId wB) = Inr (B # A # notebook_notes nb)"
proof -
  let ?A = "noteData notebookId objectA a1 a2"
  let ?B = "noteData notebookId objectB b1 b2"
  let ?fA = "\<lambda>notebook. notebook\<lparr>notebook_notes := ?A # notebook_notes notebook\<rparr>"
  let ?fB = "\<lambda>notebook. notebook\<lparr>notebook_notes := ?B # notebook_notes notebook\<rparr>"
  let ?dbA = "update_notebook db notebookId ?fA"
  let ?dbB = "update_notebook ?dbA notebookId ?fB"
  let ?wA = "writeDB (w\<lparr>noteKeeperDB := ?dbA\<rparr>)"
  let ?wB = "writeDB (?wA\<lparr>noteKeeperDB := ?dbB\<rparr>)"
  have idn: "notebook_id nb = notebookId" using findNotebook_id [OF assms(2)] .
  have pA: "persisted ?wA = Inr ?dbA" by (simp add: written_world)
  have pB: "persisted ?wB = Inr ?dbB" by (simp add: written_world)
  have stepA: "db_post_note notebookId objectA a1 a2 w = (Inr ?A, ?wA)"
    by (rule db_post_note_loaded [OF assms(1)])
  have stepB: "db_post_note notebookId objectB b1 b2 ?wA = (Inr ?B, ?wB)"
    by (rule db_post_note_loaded [OF pA])
  have lookA: "findNotebook ?dbA notebookId = Some (?fA nb)"
    using findNotebook_update_notebook [OF assms(2), of ?fA] idn by simp
  have lookB: "findNotebook ?dbB notebookId = Some (?fB (?fA nb))"
    using findNotebook_update_notebook [OF lookA, of ?fB] idn by simp
  have "fst (db_get_note notebookId ?wB) = Inr (?B # ?A # notebook_notes nb)"
    using db_get_note_loaded [OF pB, of notebookId] lookB by simp
  with stepA stepB show ?thesis by blast
qed

theorem post_note_most_recent_first_witness:
  "persisted example_world = Inr example_store
   \<and> findNotebook example_store ''4000'' = Some example_other
   \<and> (\<exists>A B wA wB.
         db_post_note ''4000'' (text_only ''first'') 5000 5000 example_world = (Inr A, wA)
         \<and> db_post_note ''4000'' (text_only ''second'') 6000 6000 wA = (Inr B, wB)
         \<and> fst (db_get_note ''4000'' wB) = Inr (B # A # notebook_notes example_other))"
proof -
  have h1: "persisted example_world = Inr example_store"
    by (simp add: example_world_def persisted_writeDB)
  have h2: "findNotebook example_store ''4000'' = Some example_other" by code_simp
  show ?thesis
    using post_note_most_recent_first [OF h1 h2] h1 h2 by blast
qed

subsection \<open>Renaming a notebook\<close>

lemma db_update_notebook_found:
  assumes "persisted w = Inr db" and "findNotebook db notebookId = Some nb"
  shows "db_update_notebook notebookId name w =
     (Inr (nb\<lparr>notebook_name := name\<rparr>),
      writeDB (w\<lparr>noteKeeperDB := update_notebook db notebookId
         (\<lambda>notebook. notebook\<lparr>notebook_name := name\<rparr>)\<rparr>))"
  using assms by (simp add: db_update_notebook_def readDB_persisted Let_def)

lemma findNotebook_Some_iff:
  "notebookId \<in> notebook_id ` set (notebooks db) \<Longrightarrow> \<exists>nb. findNotebook db notebookId = Some nb"
  using findNotebook_None_iff [of db notebookId] by (cases "findNotebook db notebookId") auto

text \<open>
  C8. In a store that has a notebook with the given id, \<^verbatim>\<open>db.update.notebook\<close> overwrites
  the name of the first such notebook and returns it; a lookup by that id in the store it
  leaves (in memory and in the slot) finds the notebook with the new name, its id and notes
  as before, and every other position of the notebook sequence is unchanged.
\<close>

theorem update_notebook_renames_only_that_notebook:
  assumes "persisted w = Inr db"
    and "notebookId \<in> notebook_id ` set (notebooks db)"
  shows "\<exists>w' i nb. i < length (notebooks db) \<and> notebooks db ! i = nb
           \<and> notebook_id nb = notebookId
           \<and> db_update_notebook notebookId name w = (Inr (nb\<lparr>notebook_name := name\<rparr>), w')
           \<and> notebooks (noteKeeperDB w') = (notebooks db)[i := nb\<lparr>notebook_name := name\<rparr>]
           \<and> persisted w' = Inr (noteKeeperDB w')
           \<and> findNotebook (noteKeeperDB w') notebookId = Some (nb\<lparr>notebook_name := name\<rparr>)"
proof -
  obtain nb where nb: "findNotebook db notebookId = Some nb"
    using findNotebook_Some_iff [OF assms(2)] by blast
  let ?f = "\<lambda>notebook. notebook\<lparr>notebook_name := name\<rparr>"
  let ?w = "writeDB (w\<lparr>noteKeeperDB := update_notebook db notebookId ?f\<rparr>)"
  have idn: "notebook_id nb = notebookId" using findNotebook_id [OF nb] .
  have run: "db_update_notebook notebookId name w = (Inr (?f nb), ?w)"
    by (rule db_update_notebook_found [OF assms(1) nb])
  obtain i where i: "i < length (notebooks db)" "notebooks db ! i = nb"
    "notebooks (update_notebook db notebookId ?f) = (notebooks db)[i := ?f nb]"
    using update_notebook_found [OF nb, of ?f] by blast
  have look: "findNotebook (update_notebook db notebookId ?f) notebookId = Some (?f nb)"
    using findNotebook_update_notebook [OF nb, of ?f] idn by simp
  show ?thesis
    using run i look idn
    by (intro exI [of _ ?w] exI [of _ i] exI [of _ nb]) (simp add: written_world)
qed

theorem update_notebook_renames_only_that_notebook_witness:
  "persisted example_world = Inr example_store
   \<and> ''4000'' \<in> notebook_id ` set (notebooks example_store)
   \<and> (\<exists>w' i nb. i < length (notebooks example_store) \<and> notebooks example_store ! i = nb
         \<and> notebook_id nb = ''4000''
         \<and> db_update_notebook ''4000'' ''Job'' example_world
              = (Inr (nb\<lparr>notebook_name := ''Job''\<rparr>), w')
         \<and> notebooks (noteKeeperDB w')
              = (notebooks example_store)[i := nb\<lparr>notebook_name := ''Job''\<rparr>]
         \<and> persisted w' = Inr (noteKeeperDB w')
         \<and> findNotebook (noteKeeperDB w') ''4000'' = Some (nb\<lparr>notebook_name := ''Job''\<rparr>))"
proof -
  have h1: "persisted example_world = Inr example_store"
    by (simp add: example_world_def persisted_writeDB)
  have h2: "''4000'' \<in> notebook_id ` set (notebooks example_store)"
    by (simp add: example_store_def example_notebook_def example_other_def)
  show ?thesis
    using update_notebook_renames_only_that_notebook [OF h1 h2] h1 h2 by blast
qed

subsection \<open>Updating a note\<close>

lemma findNote_loop_None_iff:
  "findNote_loop nbs noteId = None
     \<longleftrightarrow> noteId \<notin> note_id ` set (concat (map notebook_notes nbs))"
proof (induction nbs)
  case Nil
  show ?case by simp
next
  case (Cons nb nbs)
  show ?case
  proof (cases "find (\<lambda>note. note_id note = noteId) (notebook_notes nb)")
    case None
    then have "noteId \<notin> note_id ` set (notebook_notes nb)"
      by (auto simp: find_None_iff_absent)
    with None Cons.IH show ?thesis by auto
  next
    case (Some n)
    then have "noteId \<in> note_id ` set (notebook_notes nb)"
      using find_first_index [OF Some, of "\<lambda>x. x"] by force
    with Some show ?thesis by auto
  qed
qed

lemma update_note_loop_found:
  "findNote_loop nbs noteId = Some n \<Longrightarrow>
     \<exists>i j. i < length nbs \<and> j < length (notebook_notes (nbs ! i))
        \<and> notebook_notes (nbs ! i) ! j = n \<and> note_id n = noteId
        \<and> update_note_loop nbs noteId f
            = nbs[i := (nbs ! i)\<lparr>notebook_notes := (notebook_notes (nbs ! i))[j := f n]\<rparr>]"
proof (induction nbs)
  case Nil
  then show ?case by simp
next
  case (Cons nb nbs)
  show ?case
  proof (cases "find (\<lambda>note. note_id note = noteId) (notebook_notes nb)")
    case None
    with Cons.prems have "findNote_loop nbs noteId = Some n" by simp
    from Cons.IH [OF this] obtain i j where ij: "i < length nbs"
      "j < length (notebook_notes (nbs ! i))" "notebook_notes (nbs ! i) ! j = n"
      "note_id n = noteId"
      "update_note_loop nbs noteId f
         = nbs[i := (nbs ! i)\<lparr>notebook_notes := (notebook_notes (nbs ! i))[j := f n]\<rparr>]"
      by blast
    show ?thesis
      using None ij by (intro exI [of _ "Suc i"] exI [of _ j]) simp
  next
    case (Some m)
    with Cons.prems have mn: "m = n" by simp
    obtain j where j: "j < length (notebook_notes nb)" "notebook_notes nb ! j = n"
      "note_id n = noteId"
      "update_first (\<lambda>note. note_id note = noteId) f (notebook_notes nb)
         = (notebook_notes nb)[j := f n]"
      using find_first_index [OF Some, of f] mn by blast
    show ?thesis
      using Some j by (intro exI [of _ 0] exI [of _ j]) simp
  qed
qed

lemma db_update_note_found:
  assumes "persisted w = Inr db" and "findNote db noteId = Some oldNote"
  shows "db_update_note noteId object w =
     (Inr (assign oldNote object),
      writeDB (w\<lparr>noteKeeperDB := update_note db noteId (\<lambda>note. assign note object)\<rparr>))"
  using assms by (simp add: db_update_note_def readDB_persisted Let_def)

lemma assign_text_only: "assign n (text_only x) = n\<lparr>note_text := Some x\<rparr>"
  by (simp add: assign_def text_only_def)

text \<open>
  C7. In a store that has a note with the given id, \<^verbatim>\<open>db.update.note\<close> with an object that
  carries only \<^verbatim>\<open>text\<close> changes the text of the first such note and nothing else: the
  note keeps its title, id, notebook id and timestamp, and the store it leaves (in memory
  and in the slot) is the old one with that single note replaced.
\<close>

theorem update_note_text_changes_only_text:
  assumes "persisted w = Inr db"
    and "noteId \<in> note_id ` set (concat (map notebook_notes (notebooks db)))"
  shows "\<exists>w' i j n. i < length (notebooks db)
           \<and> j < length (notebook_notes (notebooks db ! i))
           \<and> notebook_notes (notebooks db ! i) ! j = n \<and> note_id n = noteId
           \<and> db_update_note noteId (text_only x) w = (Inr (n\<lparr>note_text := Some x\<rparr>), w')
           \<and> notebooks (noteKeeperDB w')
               = (notebooks db)[i := (notebooks db ! i)\<lparr>notebook_notes :=
                    (notebook_notes (notebooks db ! i))[j := n\<lparr>note_text := Some x\<rparr>]\<rparr>]
           \<and> persisted w' = Inr (noteKeeperDB w')
           \<and> note_title (n\<lparr>note_text := Some x\<rparr>) = note_title n
           \<and> note_id (n\<lparr>note_text := Some x\<rparr>) = note_id n
           \<and> note_notebookId (n\<lparr>note_text := Some x\<rparr>) = note_notebookId n
           \<and> note_postedOn (n\<lparr>note_text := Some x\<rparr>) = note_postedOn n"
proof -
  obtain n where n: "findNote db noteId = Some n"
    using assms(2) findNote_loop_None_iff [of "notebooks db" noteId]
    by (cases "findNote db noteId") (auto simp: findNote_def)
  let ?f = "\<lambda>note. assign note (text_only x)"
  let ?w = "writeDB (w\<lparr>noteKeeperDB := update_note db noteId ?f\<rparr>)"
  have run: "db_update_note noteId (text_only x) w = (Inr (n\<lparr>note_text := Some x\<rparr>), ?w)"
    using db_update_note_found [OF assms(1) n, of "text_only x"] by (simp add: assign_text_only)
  obtain i j where ij: "i < length (notebooks db)"
    "j < length (notebook_notes (notebooks db ! i))"
    "notebook_notes (notebooks db ! i) ! j = n" "note_id n = noteId"
    "update_note_loop (notebooks db) noteId ?f
       = (notebooks db)[i := (notebooks db ! i)\<lparr>notebook_notes :=
            (notebook_notes (notebooks db ! i))[j := ?f n]\<rparr>]"
    using update_note_loop_found [OF n [unfolded findNote_def], of ?f] by blast
  show ?thesis
    using run ij
    by (intro exI [of _ ?w] exI [of _ i] exI [of _ j] exI [of _ n])
       (simp add: written_world update_note_def assign_text_only)
qed

theorem update_note_text_changes_only_text_witness:
  "persisted example_world = Inr example_store
   \<and> ''2000'' \<in> note_id ` set (concat (map notebook_notes (notebooks example_store)))
   \<and> (\<exists>w' i j n. i < length (notebooks example_store)
         \<and> j < length (notebook_notes (notebooks example_store ! i))
         \<and> notebook_notes (notebooks example_store ! i) ! j = n \<and> note_id n = ''2000''
         \<and> db_update_note ''2000'' (text_only ''x'') example_world
              = (Inr (n\<lparr>note_text := Some ''x''\<rparr>), w')
         \<and> notebooks (noteKeeperDB w')
              = (notebooks example_store)[i := (notebooks example_store ! i)\<lparr>notebook_notes :=
                   (notebook_notes (notebooks example_store ! i))[j := n\<lparr>note_text := Some ''x''\<rparr>]\<rparr>]
         \<and> persisted w' = Inr (noteKeeperDB w'))"
proof -
  have h1: "persisted example_world = Inr example_store"
    by (simp add: example_world_def persisted_writeDB)
  have h2: "''2000'' \<in> note_id ` set (concat (map notebook_notes (notebooks example_store)))"
    by (simp add: example_store_def example_notebook_def example_other_def
        example_note_new_def example_note_old_def)
  show ?thesis
    using update_note_text_changes_only_text [OF h1 h2, of "''x''"] h1 h2 by blast
qed

subsection \<open>The invariant along sequences of operations\<close>

lemma notes_belong_own_notes: "notes_belong db = list_all own_notes (notebooks db)"
  by (simp add: notes_belong_def own_notes_def [abs_def])

lemma list_all_list_update: "list_all Q xs \<Longrightarrow> Q y \<Longrightarrow> list_all Q (xs[i := y])"
  by (induction xs arbitrary: i) (auto split: nat.splits)

lemma set_splice: "set (splice xs start deleteCount) \<subseteq> set xs"
  unfolding splice_def Let_def
  by (auto dest: in_set_takeD in_set_dropD)

lemma list_all_splice: "list_all Q xs \<Longrightarrow> list_all Q (splice xs start deleteCount)"
  using set_splice [of xs start deleteCount] by (auto simp: list_all_iff)

lemma notes_belong_update_notebook:
  assumes "notes_belong db" and "\<And>nb. own_notes nb \<Longrightarrow> notebook_id nb = notebookId \<Longrightarrow> own_notes (f nb)"
  shows "notes_belong (update_notebook db notebookId f)"
proof (cases "findNotebook db notebookId")
  case None
  then show ?thesis using assms(1) by (simp add: update_notebook_absent)
next
  case (Some nb)
  obtain i where i: "i < length (notebooks db)" "notebooks db ! i = nb"
    "notebooks (update_notebook db notebookId f) = (notebooks db)[i := f nb]"
    using update_notebook_found [OF Some, of f] by blast
  have "own_notes nb"
    using assms(1) i(1,2) by (auto simp: notes_belong_own_notes list_all_length)
  then have "own_notes (f nb)" using assms(2) findNotebook_id [OF Some] by blast
  then show ?thesis
    using assms(1) i(3) by (simp add: notes_belong_own_notes list_all_list_update)
qed

lemma own_notes_update_first:
  assumes "own_notes nb" and "\<And>n. note_notebookId (f n) = note_notebookId n"
  shows "own_notes (nb\<lparr>notebook_notes := update_first P f (notebook_notes nb)\<rparr>)"
proof -
  have "list_all Q xs \<Longrightarrow> (\<And>x. Q x \<Longrightarrow> Q (f x)) \<Longrightarrow> list_all Q (update_first P f xs)"
    for Q and xs :: "Note list"
    by (induction xs) auto
  then show ?thesis using assms by (simp add: own_notes_def)
qed

lemma list_all_update_note_loop:
  assumes "list_all own_notes nbs" and "\<And>n. note_notebookId (f n) = note_notebookId n"
  shows "list_all own_notes (update_note_loop nbs noteId f)"
  using assms(1)
proof (induction nbs)
  case Nil
  show ?case by simp
next
  case (Cons nb nbs)
  then show ?case
    using own_notes_update_first [of nb f "\<lambda>note. note_id note = noteId"] assms(2)
    by (auto split: option.splits)
qed

lemma assign_keeps_notebookId:
  "obj_notebookId object = None \<Longrightarrow> note_notebookId (assign n object) = note_notebookId n"
  by (simp add: assign_def)

lemma db_post_notebook_loaded:
  assumes "persisted w = Inr db"
  shows "db_post_notebook name now w =
     (Inr \<lparr>notebook_id = generateID now, notebook_name = name, notebook_notes = []\<rparr>,
      writeDB (w\<lparr>noteKeeperDB := db\<lparr>notebooks := notebooks db
         @ [\<lparr>notebook_id = generateID now, notebook_name = name, notebook_notes = []\<rparr>]\<rparr>\<rparr>))"
  using assms by (simp add: db_post_notebook_def readDB_persisted Let_def)

lemma db_update_notebook_missing:
  assumes "persisted w = Inr db" and "findNotebook db notebookId = None"
  shows "db_update_notebook notebookId name w = (Inl TypeError, w\<lparr>noteKeeperDB := db\<rparr>)"
  using assms by (simp add: db_update_notebook_def readDB_persisted)

lemma db_update_note_missing:
  assumes "persisted w = Inr db" and "findNote db noteId = None"
  shows "db_update_note noteId object w = (Inl TypeError, w\<lparr>noteKeeperDB := db\<rparr>)"
  using assms by (simp add: db_update_note_def readDB_persisted)

lemma db_delete_note_missing:
  assumes "persisted w = Inr db" and "findNotebook db notebookId = None"
  shows "db_delete_note notebookId noteId w = (Inl TypeError, w\<lparr>noteKeeperDB := db\<rparr>)"
  using assms by (simp add: db_delete_note_def readDB_persisted)

lemma in_step_written: "in_step (writeDB w)"
  by (simp add: in_step_def persisted_writeDB noteKeeperDB_writeDB)

lemma in_step_reloaded: "persisted w = Inr db \<Longrightarrow> in_step (w\<lparr>noteKeeperDB := db\<rparr>)"
  by (simp add: in_step_def persisted_reloaded)

lemma in_step_apply_operation:
  assumes "in_step w"
  shows "in_step (apply_operation op w)"
proof -
  let ?db = "noteKeeperDB w"
  have p: "persisted w = Inr ?db" using assms by (simp add: in_step_def)
  show ?thesis
  proof (cases op)
    case (PostNotebook name now)
    then show ?thesis by (simp add: db_post_notebook_loaded [OF p] in_step_written)
  next
    case (PostNote notebookId object now1 now2)
    then show ?thesis by (simp add: db_post_note_loaded [OF p] in_step_written)
  next
    case (UpdateNotebook notebookId name)
    show ?thesis
    proof (cases "findNotebook ?db notebookId")
      case None
      then show ?thesis
        using UpdateNotebook in_step_reloaded [OF p]
        by (simp add: db_update_notebook_missing [OF p])
    next
      case (Some nb)
      then show ?thesis
        using UpdateNotebook by (simp add: db_update_notebook_found [OF p] in_step_written)
    qed
  next
    case (UpdateNote noteId object)
    show ?thesis
    proof (cases "findNote ?db noteId")
      case None
      then show ?thesis
        using UpdateNote in_step_reloaded [OF p]
        by (simp add: db_update_note_missing [OF p])
    next
      case (Some n)
      then show ?thesis
        using UpdateNote by (simp add: db_update_note_found [OF p] in_step_written)
    qed
  next
    case (DeleteNotebook notebookId)
    then show ?thesis by (simp add: db_delete_notebook_loaded [OF p] in_step_written)
  next
    case (DeleteNote notebookId noteId)
    show ?thesis
    proof (cases "findNotebook ?db notebookId")
      case None
      then show ?thesis
        using DeleteNote in_step_reloaded [OF p]
        by (simp add: db_delete_note_missing [OF p])
    next
      case (Some nb)
      then show ?thesis
        using DeleteNote by (simp add: db_delete_note_found [OF p] in_step_written)
    qed
  qed
qed

lemma in_step_run: "in_step w \<Longrightarrow> in_step (run ops w)"
  by (induction ops arbitrary: w) (simp_all add: in_step_apply_operation)

lemma in_step_empty_world: "in_step empty_world"
  by (simp add: empty_world_def in_step_written)

lemma notes_belong_apply_operation:
  assumes "in_step w" and "notes_belong (noteKeeperDB w)" and "carries_no_notebookId op"
  shows "notes_belong (noteKeeperDB (apply_operation op w))"
proof -
  let ?db = "noteKeeperDB w"
  have p: "persisted w = Inr ?db" using assms(1) by (simp add: in_step_def)
  have inv: "list_all own_notes (notebooks ?db)"
    using assms(2) by (simp add: notes_belong_own_notes)
  show ?thesis
  proof (cases op)
    case (PostNotebook name now)
    then show ?thesis
      using inv
      by (simp add: db_post_notebook_loaded [OF p] written_world notes_belong_own_notes
          own_notes_def)
  next
    case (PostNote notebookId object now1 now2)
    with assms(3) have none: "obj_notebookId object = None" by simp
    have "notes_belong (update_notebook ?db notebookId
        (\<lambda>notebook. notebook\<lparr>notebook_notes :=
            noteData notebookId object now1 now2 # notebook_notes notebook\<rparr>))"
      using assms(2) none
      by (intro notes_belong_update_notebook) (simp_all add: own_notes_def noteData_def)
    then show ?thesis
      using PostNote by (simp add: db_post_note_loaded [OF p] written_world)
  next
    case (UpdateNotebook notebookId name)
    show ?thesis
    proof (cases "findNotebook ?db notebookId")
      case None
      then show ?thesis
        using UpdateNotebook assms(2) by (simp add: db_update_notebook_missing [OF p])
    next
      case (Some nb)
      have "notes_belong (update_notebook ?db notebookId
          (\<lambda>notebook. notebook\<lparr>notebook_name := name\<rparr>))"
        using assms(2)
        by (intro notes_belong_update_notebook) (simp_all add: own_notes_def)
      then show ?thesis
        using UpdateNotebook Some
        by (simp add: db_update_notebook_found [OF p] written_world)
    qed
  next
    case (UpdateNote noteId object)
    with assms(3) have none: "obj_notebookId object = None" by simp
    show ?thesis
    proof (cases "findNote ?db noteId")
      case None
      then show ?thesis
        using UpdateNote assms(2) by (simp add: db_update_note_missing [OF p])
    next
      case (Some n)
      have "list_all own_notes
          (update_note_loop (notebooks ?db) noteId (\<lambda>note. assign note object))"
        using inv none by (intro list_all_update_note_loop) (simp_all add: assign_keeps_notebookId)
      then show ?thesis
        using UpdateNote Some
        by (simp add: db_update_note_found [OF p] written_world notes_belong_own_notes
            update_note_def)
    qed
  next
    case (DeleteNotebook notebookId)
    then show ?thesis
      using inv
      by (simp add: db_delete_notebook_loaded [OF p] written_world notes_belong_own_notes
          list_all_splice)
  next
    case (DeleteNote notebookId noteId)
    show ?thesis
    proof (cases "findNotebook ?db notebookId")
      case None
      then show ?thesis
        using DeleteNote assms(2) by (simp add: db_delete_note_missing [OF p])
    next
      case (Some nb)
      obtain i where i: "i < length (notebooks ?db)" "notebooks ?db ! i = nb"
        using update_notebook_found [OF Some, of "\<lambda>x. x"] by blast
      have own: "own_notes nb"
        using inv i by (auto simp: list_all_length)
      have "notes_belong (update_notebook ?db notebookId
          (\<lambda>notebook. notebook\<lparr>notebook_notes :=
              splice (notebook_notes nb) (findNoteIndex nb noteId) 1\<rparr>))"
      proof (intro notes_belong_update_notebook assms(2))
        fix nb' assume "own_notes nb'" and "notebook_id nb' = notebookId"
        then have "notebook_id nb' = notebook_id nb" using findNotebook_id [OF Some] by simp
        then show "own_notes (nb'\<lparr>notebook_notes :=
            splice (notebook_notes nb) (findNoteIndex nb noteId) 1\<rparr>)"
          using own by (simp add: own_notes_def list_all_splice)
      qed
      then show ?thesis
        using DeleteNote Some by (simp add: db_delete_note_found [OF p] written_world)
    qed
  qed
qed

text \<open>
  C4, as the code has it. Starting from the empty store, every sequence of the six
  operations whose objects carry no \<^verbatim>\<open>notebookId\<close> key leaves a store, in memory and in
  the slot, in which every note of a notebook has that notebook's id as its
  \<^verbatim>\<open>notebookId\<close>.
\<close>

theorem operations_preserve_notes_belong:
  assumes "list_all carries_no_notebookId ops"
  shows "notes_belong (noteKeeperDB (run ops empty_world))
         \<and> persisted (run ops empty_world) = Inr (noteKeeperDB (run ops empty_world))"
proof -
  have step: "in_step w \<Longrightarrow> notes_belong (noteKeeperDB w) \<Longrightarrow> list_all carries_no_notebookId ops
      \<Longrightarrow> notes_belong (noteKeeperDB (run ops w))" for w
  proof (induction ops arbitrary: w)
    case Nil
    then show ?case by simp
  next
    case (Cons op ops)
    have "in_step (apply_operation op w)"
      using Cons.prems(1) by (rule in_step_apply_operation)
    moreover have "notes_belong (noteKeeperDB (apply_operation op w))"
      using Cons.prems by (intro notes_belong_apply_operation) simp_all
    ultimately show ?case using Cons.IH Cons.prems(3) by simp
  qed
  have "notes_belong (noteKeeperDB empty_world)"
    by (simp add: empty_world_def noteKeeperDB_writeDB notes_belong_def)
  then have "notes_belong (noteKeeperDB (run ops empty_world))"
    using step [OF in_step_empty_world _ assms] by simp
  moreover have "in_step (run ops empty_world)"
    using in_step_empty_world by (rule in_step_run)
  ultimately show ?thesis by (simp add: in_step_def)
qed

theorem operations_preserve_notes_belong_witness:
  "list_all carries_no_notebookId
     [PostNotebook ''Home'' 1, PostNote ''1'' example_object 2 2,
      UpdateNote ''2'' (text_only ''x''), DeleteNote ''1'' ''9'']
   \<and> notes_belong (noteKeeperDB (run
     [PostNotebook ''Home'' 1, PostNote ''1'' example_object 2 2,
      UpdateNote ''2'' (text_only ''x''), DeleteNote ''1'' ''9''] empty_world))
   \<and> persisted (run
     [PostNotebook ''Home'' 1, PostNote ''1'' example_object 2 2,
      UpdateNote ''2'' (text_only ''x''), DeleteNote ''1'' ''9''] empty_world)
      = Inr (noteKeeperDB (run
     [PostNotebook ''Home'' 1, PostNote ''1'' example_object 2 2,
      UpdateNote ''2'' (text_only ''x''), DeleteNote ''1'' ''9''] empty_world))"
proof -
  have h: "list_all carries_no_notebookId
     [PostNotebook ''Home'' 1, PostNote ''1'' example_object 2 2,
      UpdateNote ''2'' (text_only ''x''), DeleteNote ''1'' ''9'']"
    by (simp add: example_object_def text_only_def)
  show ?thesis
    using operations_preserve_notes_belong [OF h] h by simp
qed

text \<open>
  C4, as the claim states it, fails. From the empty store, create the notebook "1" and a
  note "2" in it; \<^verbatim>\<open>db.update.note("2", {notebookId: "7"})\<close> then leaves a note in notebook
  "1" whose \<^verbatim>\<open>notebookId\<close> is "7". \<^verbatim>\<open>db.post.note("1", {notebookId: "7"})\<close> does the same
  at creation.
\<close>

theorem update_note_breaks_notes_belong:
  "\<not> notes_belong (noteKeeperDB (run
       [PostNotebook ''Home'' 1, PostNote ''1'' example_object 2 2,
        UpdateNote ''2'' (notebookId_only ''7'')] empty_world))
   \<and> \<not> notes_belong (noteKeeperDB (run
       [PostNotebook ''Home'' 1, PostNote ''1'' (notebookId_only ''7'') 2 2] empty_world))"
  by code_simp

subsection \<open>Reading after a reload\<close>

lemma db_get_notebook_loaded:
  assumes "persisted w = Inr db"
  shows "fst (db_get_notebook w) = Inr (notebooks db)"
  using assms by (simp add: db_get_notebook_def readDB_persisted)

text \<open>
  C5. Take any store, write it to the slot, and apply any sequence of create, update and
  delete operations. Serializing the resulting variable to the slot and reloading it gives
  the same variable, and \<^verbatim>\<open>db.get.notebook\<close> and \<^verbatim>\<open>db.get.note\<close> after the reload return
  what the store in memory held before it: the notebook sequence, and the notes of the
  notebook that \<^verbatim>\<open>findNotebook\<close> reaches (a TypeError when there is none). The same holds
  without the extra serialization, since every operation leaves the slot equal to the
  variable.
\<close>

theorem reload_round_trip:
  "readDB (writeDB (run ops (writeDB w))) = Inr (writeDB (run ops (writeDB w)))
   \<and> noteKeeperDB (writeDB (run ops (writeDB w))) = noteKeeperDB (run ops (writeDB w))
   \<and> fst (db_get_notebook (writeDB (run ops (writeDB w))))
        = Inr (notebooks (noteKeeperDB (run ops (writeDB w))))
   \<and> fst (db_get_note notebookId (writeDB (run ops (writeDB w))))
        = (case findNotebook (noteKeeperDB (run ops (writeDB w))) notebookId of
             None \<Rightarrow> Inl TypeError
           | Some notebook \<Rightarrow> Inr (notebook_notes notebook))
   \<and> fst (db_get_notebook (run ops (writeDB w)))
        = Inr (notebooks (noteKeeperDB (run ops (writeDB w))))
   \<and> fst (db_get_note notebookId (run ops (writeDB w)))
        = (case findNotebook (noteKeeperDB (run ops (writeDB w))) notebookId of
             None \<Rightarrow> Inl TypeError
           | Some notebook \<Rightarrow> Inr (notebook_notes notebook))"
proof -
  let ?W = "run ops (writeDB w)"
  have "in_step ?W" using in_step_written by (rule in_step_run)
  then have p: "persisted ?W = Inr (noteKeeperDB ?W)" by (simp add: in_step_def)
  have q: "persisted (writeDB ?W) = Inr (noteKeeperDB ?W)" by (rule persisted_writeDB)
  show ?thesis
    using db_get_notebook_loaded [OF p] db_get_note_loaded [OF p, of notebookId]
      db_get_notebook_loaded [OF q] db_get_note_loaded [OF q, of notebookId]
    by (simp add: readDB_writeDB noteKeeperDB_writeDB)
qed

subsection \<open>Generated ids\<close>

text \<open>
  C6. The claim that two successive note creations get distinct ids, evaluated on two
  calls of \<^verbatim>\<open>db.post.note\<close> for notebook "4000" of the example store that read the same
  clock value 5000: both notes get the id "5000", and the notebook then holds two notes
  with that id.
\<close>

theorem post_note_same_millisecond_same_id:
  "fst (db_post_note ''4000'' (text_only ''first'') 5000 5000 example_world)
     = Inr \<lparr>note_id = ''5000'', note_notebookId = ''4000'', note_title = None,
            note_text = Some ''first'', note_postedOn = 5000\<rparr>
   \<and> fst (db_post_note ''4000'' (text_only ''second'') 5000 5000
           (snd (db_post_note ''4000'' (text_only ''first'') 5000 5000 example_world)))
     = Inr \<lparr>note_id = ''5000'', note_notebookId = ''4000'', note_title = None,
            note_text = Some ''second'', note_postedOn = 5000\<rparr>
   \<and> map_sum (\<lambda>e. e) (map note_id)
         (fst (db_get_note ''4000''
           (snd (db_post_note ''4000'' (text_only ''second'') 5000 5000
             (snd (db_post_note ''4000'' (text_only ''first'') 5000 5000 example_world))))))
     = Inr [''5000'', ''5000'']"
proof -
  let ?A = "noteData ''4000'' (text_only ''first'') 5000 5000"
  let ?B = "noteData ''4000'' (text_only ''second'') 5000 5000"
  let ?fA = "\<lambda>notebook. notebook\<lparr>notebook_notes := ?A # notebook_notes notebook\<rparr>"
  let ?fB = "\<lambda>notebook. notebook\<lparr>notebook_notes := ?B # notebook_notes notebook\<rparr>"
  let ?dbA = "update_notebook example_store ''4000'' ?fA"
  let ?dbB = "update_notebook ?dbA ''4000'' ?fB"
  let ?wA = "writeDB (example_world\<lparr>noteKeeperDB := ?dbA\<rparr>)"
  let ?wB = "writeDB (?wA\<lparr>noteKeeperDB := ?dbB\<rparr>)"
  have g: "generateID 5000 = ''5000''"
    by (simp add: generateID_def toString_def digits.simps digit_char_def)
  have p0: "persisted example_world = Inr example_store"
    by (simp add: example_world_def persisted_writeDB)
  have pA: "persisted ?wA = Inr ?dbA" by (simp add: written_world)
  have pB: "persisted ?wB = Inr ?dbB" by (simp add: written_world)
  have stepA: "db_post_note ''4000'' (text_only ''first'') 5000 5000 example_world = (Inr ?A, ?wA)"
    by (rule db_post_note_loaded [OF p0])
  have stepB: "db_post_note ''4000'' (text_only ''second'') 5000 5000 ?wA = (Inr ?B, ?wB)"
    by (rule db_post_note_loaded [OF pA])
  have look0: "findNotebook example_store ''4000'' = Some example_other" by code_simp
  have lookA: "findNotebook ?dbA ''4000'' = Some (?fA example_other)"
    using findNotebook_update_notebook [OF look0, of ?fA] by (simp add: example_other_def)
  have lookB: "findNotebook ?dbB ''4000'' = Some (?fB (?fA example_other))"
    using findNotebook_update_notebook [OF lookA, of ?fB] by (simp add: example_other_def)
  have got: "fst (db_get_note ''4000'' ?wB) = Inr [?B, ?A]"
    using db_get_note_loaded [OF pB, of "''4000''"] lookB by (simp add: example_other_def)
  have a: "?A = \<lparr>note_id = ''5000'', note_notebookId = ''4000'', note_title = None,
            note_text = Some ''first'', note_postedOn = 5000\<rparr>"
    by (simp add: noteData_def text_only_def g)
  have b: "?B = \<lparr>note_id = ''5000'', note_notebookId = ''4000'', note_title = None,
            note_text = Some ''second'', note_postedOn = 5000\<rparr>"
    by (simp add: noteData_def text_only_def g)
  show ?thesis
    unfolding stepA stepB snd_conv fst_conv got
    using a b by simp
qed

end
